theory Spec2Isabelle
  imports Main "HOL-Library.Sublist" "HOL-Library.AList"
begin

section \<open>Python strings and the string operations the scripts use\<close>

text \<open>
  A Python \<open>str\<close> is a sequence of Unicode code points; it is modelled as the list of their
  numbers (\<open>ord\<close>). \<open>py\<close> turns an ASCII literal into such a string.
\<close>

type_synonym pystr = "nat list"

definition py :: "string \<Rightarrow> pystr" where
  "py cs = map of_char cs"

text \<open>\<open>s.startswith(p)\<close>.\<close>

definition startswith :: "'a list \<Rightarrow> 'a list \<Rightarrow> bool" where
  "startswith s p = prefix p s"

text \<open>
  \<open>s.replace(old, new, 1)\<close>: the leftmost occurrence of \<open>old\<close> is replaced, and an empty
  \<open>old\<close> matches at position 0.
\<close>

fun replace1 :: "'a list \<Rightarrow> 'a list \<Rightarrow> 'a list \<Rightarrow> 'a list" where
  "replace1 [] old new = (if old = [] then new else [])"
| "replace1 (c # s) old new =
     (if prefix old (c # s) then new @ drop (length old) (c # s)
      else c # replace1 s old new)"

text \<open>
  The slice \<open>s[:n]\<close>: a negative \<open>n\<close> counts from the end, so \<open>s[:-1]\<close> drops the last
  element.
\<close>

definition slice_to :: "'a list \<Rightarrow> int \<Rightarrow> 'a list" where
  "slice_to s n = (if n < 0 then take (nat (int (length s) + n)) s else take (nat n) s)"

text \<open>\<open>str(n)\<close> of a non-negative integer: its decimal digits.\<close>

function str_nat :: "nat \<Rightarrow> pystr" where
  "str_nat n = (if n < 10 then [48 + n] else str_nat (n div 10) @ [48 + n mod 10])"
  by pat_completeness auto

termination
  by (relation "measure id") auto

declare str_nat.simps [simp del]

section \<open>UTF-8\<close>

text \<open>
  \<open>s.encode('utf-8')\<close> and \<open>b.decode('utf-8')\<close>, both strict: encoding raises
  \<open>UnicodeEncodeError\<close> on a surrogate code point, decoding raises \<open>UnicodeDecodeError\<close> on
  a truncated, overlong or out-of-range sequence. \<open>None\<close> stands for the exception. Bytes
  are numbers below 256.
\<close>

definition scalar :: "nat \<Rightarrow> bool" where
  "scalar c = (c < 0x110000 \<and> \<not> (0xD800 \<le> c \<and> c \<le> 0xDFFF))"

definition utf8_char :: "nat \<Rightarrow> nat list option" where
  "utf8_char c =
     (if c < 0x80 then Some [c]
      else if c < 0x800 then Some [0xC0 + c div 64, 0x80 + c mod 64]
      else if c < 0x10000 then
        (if 0xD800 \<le> c \<and> c \<le> 0xDFFF then None
         else Some [0xE0 + c div 4096, 0x80 + c div 64 mod 64, 0x80 + c mod 64])
      else if c < 0x110000 then
        Some [0xF0 + c div 262144, 0x80 + c div 4096 mod 64, 0x80 + c div 64 mod 64,
              0x80 + c mod 64]
      else None)"

fun utf8_encode :: "pystr \<Rightarrow> nat list option" where
  "utf8_encode [] = Some []"
| "utf8_encode (c # cs) =
     (case utf8_char c of
        None \<Rightarrow> None
      | Some bs \<Rightarrow> (case utf8_encode cs of None \<Rightarrow> None | Some rest \<Rightarrow> Some (bs @ rest)))"

definition cont :: "nat \<Rightarrow> bool" where
  "cont b = (0x80 \<le> b \<and> b < 0xC0)"

fun utf8_decode :: "nat list \<Rightarrow> pystr option" where
  "utf8_decode [] = Some []"
| "utf8_decode (b # bs) =
     (if b < 0x80 then map_option ((#) b) (utf8_decode bs)
      else if 0xC2 \<le> b \<and> b < 0xE0 then
        (case bs of
           b1 # r \<Rightarrow>
             if cont b1 then map_option ((#) ((b - 0xC0) * 64 + (b1 - 0x80))) (utf8_decode r)
             else None
         | _ \<Rightarrow> None)
      else if 0xE0 \<le> b \<and> b < 0xF0 then
        (case bs of
           b1 # b2 # r \<Rightarrow>
             (let c = (b - 0xE0) * 4096 + (b1 - 0x80) * 64 + (b2 - 0x80)
              in if cont b1 \<and> cont b2 \<and> 0x800 \<le> c \<and> \<not> (0xD800 \<le> c \<and> c \<le> 0xDFFF)
                 then map_option ((#) c) (utf8_decode r) else None)
         | _ \<Rightarrow> None)
      else if 0xF0 \<le> b \<and> b < 0xF5 then
        (case bs of
           b1 # b2 # b3 # r \<Rightarrow>
             (let c = (b - 0xF0) * 262144 + (b1 - 0x80) * 4096 + (b2 - 0x80) * 64 + (b3 - 0x80)
              in if cont b1 \<and> cont b2 \<and> cont b3 \<and> 0x10000 \<le> c \<and> c < 0x110000
                 then map_option ((#) c) (utf8_decode r) else None)
         | _ \<Rightarrow> None)
      else None)"

definition utf8_len :: "pystr \<Rightarrow> nat option" where
  "utf8_len s = map_option length (utf8_encode s)"

section \<open>plex-dance.py: path mapping\<close>

text \<open>
  \<open>apply_path_mapping(path, mapping)\<close>. The mapping is \<open>None\<close> or a dictionary with string
  keys, kept as an association list. \<open>not mapping\<close> holds for \<open>None\<close> and for the empty
  dictionary; in the latter the two keys are missing as well, so the first test of the
  source is the \<open>None\<close> case together with the two membership tests.
\<close>

type_synonym mapping = "(string \<times> pystr) list option"

definition apply_path_mapping :: "pystr \<Rightarrow> mapping \<Rightarrow> pystr" where
  "apply_path_mapping path mapping =
     (case mapping of
        None \<Rightarrow> path
      | Some m \<Rightarrow>
          (case map_of m ''local_root'' of
             None \<Rightarrow> path
           | Some local_root \<Rightarrow>
               (case map_of m ''plex_root'' of
                  None \<Rightarrow> path
                | Some plex_root \<Rightarrow>
                    if startswith path plex_root
                    then replace1 path plex_root local_root
                    else path)))"

section \<open>plex-dance.py: staging names\<close>

text \<open>
  \<open>truncate_utf8_safe(text, max_bytes)\<close>. \<open>try_decode\<close> is its loop
  \<open>for i in range(max_bytes, 0, -1)\<close>, which returns the first prefix of the encoded bytes
  that decodes; the fallback keeps the ASCII characters of the text and slices them.
\<close>

fun try_decode :: "nat list \<Rightarrow> nat \<Rightarrow> pystr option" where
  "try_decode encoded 0 = None"
| "try_decode encoded (Suc i) =
     (case utf8_decode (take (Suc i) encoded) of
        Some truncated \<Rightarrow> Some truncated
      | None \<Rightarrow> try_decode encoded i)"

definition truncate_utf8_safe :: "pystr \<Rightarrow> int \<Rightarrow> pystr option" where
  "truncate_utf8_safe text max_bytes =
     (case utf8_encode text of
        None \<Rightarrow> None
      | Some encoded \<Rightarrow>
          if int (length encoded) \<le> max_bytes then Some text
          else (case try_decode encoded (nat max_bytes) of
                  Some truncated \<Rightarrow> Some truncated
                | None \<Rightarrow> Some (slice_to (filter (\<lambda>c. c < 128) text) max_bytes)))"

text \<open>
  \<open>c.isalnum()\<close>: for an ASCII character it holds of the digits and the letters; beyond
  ASCII it is a table of the Unicode database, which is a parameter \<open>uni\<close> of the model.
\<close>

definition ascii_alnum :: "nat \<Rightarrow> bool" where
  "ascii_alnum c = ((48 \<le> c \<and> c \<le> 57) \<or> (65 \<le> c \<and> c \<le> 90) \<or> (97 \<le> c \<and> c \<le> 122))"

definition isalnum :: "(nat \<Rightarrow> bool) \<Rightarrow> nat \<Rightarrow> bool" where
  "isalnum uni c = (if c < 128 then ascii_alnum c else uni c)"

text \<open>The lambda \<open>safe_chars\<close> of \<open>safe_temp_name\<close>; 95 is the underscore.\<close>

definition safe_chars :: "(nat \<Rightarrow> bool) \<Rightarrow> pystr \<Rightarrow> pystr" where
  "safe_chars uni s = map (\<lambda>c. if isalnum uni c \<or> c \<in> set (py ''-_. '') then c else 95) s"

text \<open>
  \<open>safe_temp_name(index, artist, album, max_filename_bytes)\<close>; \<open>//\<close> is floor
  division, as \<open>div\<close> on \<open>int\<close> is.
\<close>

definition safe_temp_name :: "(nat \<Rightarrow> bool) \<Rightarrow> nat \<Rightarrow> pystr \<Rightarrow> pystr \<Rightarrow> int \<Rightarrow> pystr option" where
  "safe_temp_name uni index artist0 album0 max_filename_bytes =
     (let artist = safe_chars uni artist0;
          album = safe_chars uni album0;
          base_name = str_nat index @ py ''_'' @ artist @ py ''_'' @ album
      in case utf8_encode base_name of
           None \<Rightarrow> None
         | Some e \<Rightarrow>
             if int (length e) \<le> max_filename_bytes then Some base_name
             else
               (let index_part = str_nat index @ py ''_'' in
                case utf8_encode index_part of
                  None \<Rightarrow> None
                | Some ie \<Rightarrow>
                    (let remaining_bytes = max_filename_bytes - int (length ie) - 1;
                         artist_bytes = remaining_bytes div 2;
                         album_bytes = remaining_bytes - artist_bytes
                     in case truncate_utf8_safe artist artist_bytes of
                          None \<Rightarrow> None
                        | Some artist_trunc \<Rightarrow>
                            (case truncate_utf8_safe album album_bytes of
                               None \<Rightarrow> None
                             | Some album_trunc \<Rightarrow>
                                 Some (str_nat index @ py ''_'' @ artist_trunc @ py ''_''
                                         @ album_trunc)))))"

text \<open>
  Two notions for stating what the names are. A string fits in \<open>n\<close> bytes when it can be
  encoded and its encoding has at most \<open>n\<close> bytes. A whole cut of a text to \<open>n\<close> bytes is
  its longest prefix that fits in \<open>n\<close> bytes, so it is made of whole code points; when not
  even the first code point fits, it is the ASCII characters of the text, sliced to \<open>n\<close>.
\<close>

definition fits :: "pystr \<Rightarrow> int \<Rightarrow> bool" where
  "fits s n = (case utf8_encode s of None \<Rightarrow> False | Some e \<Rightarrow> int (length e) \<le> n)"

definition whole_cut :: "pystr \<Rightarrow> pystr \<Rightarrow> int \<Rightarrow> bool" where
  "whole_cut r text n =
     (if \<exists>p\<in>set (prefixes text). p \<noteq> [] \<and> fits p n
      then prefix r text \<and> fits r n \<and> (\<forall>p\<in>set (prefixes text). fits p n \<longrightarrow> prefix p r)
      else r = slice_to (filter (\<lambda>c. c < 128) text) n)"

text \<open>A Unicode table with no alphanumeric character beyond ASCII, for concrete runs.\<close>

definition ascii_only :: "nat \<Rightarrow> bool" where
  "ascii_only c = False"

section \<open>The operating system, as the scripts see it\<close>

subsection \<open>\<open>os.path\<close> on POSIX\<close>

text \<open>
  \<open>os.path.split\<close> cuts a path after its last slash (47): \<open>path_tail\<close> is what follows the
  slash, \<open>path_head\<close> what precedes it, the slash included.
\<close>

definition path_tail :: "pystr \<Rightarrow> pystr" where
  "path_tail p = rev (takeWhile (\<lambda>c. c \<noteq> 47) (rev p))"

definition path_head :: "pystr \<Rightarrow> pystr" where
  "path_head p = take (length p - length (path_tail p)) p"

text \<open>\<open>head.rstrip('/')\<close>.\<close>

definition rstrip_sep :: "pystr \<Rightarrow> pystr" where
  "rstrip_sep s = rev (dropWhile (\<lambda>c. c = 47) (rev s))"

text \<open>
  \<open>os.path.dirname\<close>: the head, without its trailing slashes unless it consists of
  slashes only.
\<close>

definition dirname :: "pystr \<Rightarrow> pystr" where
  "dirname p =
     (let head = path_head p
      in if head \<noteq> [] \<and> head \<noteq> replicate (length head) 47 then rstrip_sep head else head)"

definition basename :: "pystr \<Rightarrow> pystr" where
  "basename p = path_tail p"

text \<open>\<open>os.path.join(a, b)\<close> of two components.\<close>

definition join :: "pystr \<Rightarrow> pystr \<Rightarrow> pystr" where
  "join a b =
     (if startswith b [47] then b
      else if a = [] \<or> last a = 47 then a @ b
      else a @ [47] @ b)"

subsection \<open>The file system\<close>

text \<open>
  A file system is a tree: a file has the device it lives on (\<open>st_dev\<close>) and its lines, a
  directory has its device and its entries by name, in the order \<open>os.listdir\<close> lists them.
  A directory whose device differs from its parent's is a mount point. The model has no
  symbolic links, no \<open>..\<close> components, no permissions and no files in use; a relative
  path is resolved from the root, which stands for the working directory.
\<close>

datatype node = File nat "pystr list" | Dir nat "(pystr \<times> node) list"

fun st_dev :: "node \<Rightarrow> nat" where
  "st_dev (File d _) = d"
| "st_dev (Dir d _) = d"

fun is_dir :: "node \<Rightarrow> bool" where
  "is_dir (Dir _ _) = True"
| "is_dir (File _ _) = False"

text \<open>The components of a path: what stands between its slashes, without the empty
  components and the \<open>.\<close> components.\<close>

fun split_sep :: "pystr \<Rightarrow> pystr \<Rightarrow> pystr list" where
  "split_sep acc [] = [rev acc]"
| "split_sep acc (c # cs) = (if c = 47 then rev acc # split_sep [] cs else split_sep (c # acc) cs)"

definition components :: "pystr \<Rightarrow> pystr list" where
  "components p = filter (\<lambda>c. c \<noteq> [] \<and> c \<noteq> [46]) (split_sep [] p)"

fun walk :: "pystr list \<Rightarrow> node \<Rightarrow> node option" where
  "walk [] n = Some n"
| "walk (c # cs) (File _ _) = None"
| "walk (c # cs) (Dir _ ch) = (case map_of ch c of None \<Rightarrow> None | Some m \<Rightarrow> walk cs m)"

text \<open>
  \<open>os.stat\<close>: the node a path names, if any. The empty path names nothing, and a path
  that ends in a slash names directories only.
\<close>

definition lookup :: "node \<Rightarrow> pystr \<Rightarrow> node option" where
  "lookup root p =
     (if p = [] then None
      else case walk (components p) root of
             None \<Rightarrow> None
           | Some n \<Rightarrow> if last p = 47 \<and> \<not> is_dir n then None else Some n)"

text \<open>
  \<open>alter cs f root\<close> rewrites the entry that the last component of \<open>cs\<close> names in its
  parent directory: \<open>f\<close> gets the entry there (or \<open>None\<close>) and returns the new one (or
  \<open>None\<close> to remove it). It fails when the parent is missing or is a file.
\<close>

definition set_child :: "pystr \<Rightarrow> node option \<Rightarrow> (pystr \<times> node) list \<Rightarrow> (pystr \<times> node) list" where
  "set_child c n ch = (case n of None \<Rightarrow> AList.delete c ch | Some m \<Rightarrow> AList.update c m ch)"

fun alter :: "pystr list \<Rightarrow> (node option \<Rightarrow> node option) \<Rightarrow> node \<Rightarrow> node option" where
  "alter [] f n = None"
| "alter (c # cs) f (File _ _) = None"
| "alter [c] f (Dir d ch) = Some (Dir d (set_child c (f (map_of ch c)) ch))"
| "alter (c # c' # cs) f (Dir d ch) =
     (case map_of ch c of
        None \<Rightarrow> None
      | Some m \<Rightarrow>
          (case alter (c' # cs) f m of
             None \<Rightarrow> None
           | Some m' \<Rightarrow> Some (Dir d (AList.update c m' ch))))"

text \<open>The chain of new directories \<open>os.makedirs\<close> creates, on the device of their parent.\<close>

fun new_dirs :: "nat \<Rightarrow> pystr list \<Rightarrow> node" where
  "new_dirs d [] = Dir d []"
| "new_dirs d (c # cs) = Dir d [(c, new_dirs d cs)]"

datatype errno = ENOENT | ENOTDIR | EISDIR | EEXIST | ENOTEMPTY | EXDEV | EINVAL

fun mkdirs :: "pystr list \<Rightarrow> node \<Rightarrow> errno + node" where
  "mkdirs [] (Dir d ch) = Inr (Dir d ch)"
| "mkdirs [] (File _ _) = Inl EEXIST"
| "mkdirs (c # cs) (File _ _) = Inl ENOTDIR"
| "mkdirs (c # cs) (Dir d ch) =
     (case map_of ch c of
        None \<Rightarrow> Inr (Dir d (ch @ [(c, new_dirs d cs)]))
      | Some m \<Rightarrow>
          (case mkdirs cs m of
             Inl e \<Rightarrow> Inl e
           | Inr m' \<Rightarrow> Inr (Dir d (AList.update c m' ch))))"

subsection \<open>The process: its globals, its file system, and what it did\<close>

text \<open>
  Python exceptions the scripts can meet: an \<open>OSError\<close> with its error number
  (\<open>FileNotFoundError\<close> is \<open>ENOENT\<close>, and so on), \<open>UnicodeEncodeError\<close>, \<open>IndexError\<close>,
  \<open>KeyError\<close>, \<open>UnboundLocalError\<close>, any exception of the Plex client (\<open>PlexError\<close>), and
  \<open>SystemExit\<close> with its exit code. All but \<open>SystemExit\<close> are caught by
  \<open>except Exception\<close>.
\<close>

datatype exn =
    OSError errno
  | UnicodeEncodeError
  | IndexError
  | KeyError
  | UnboundLocalError
  | PlexError
  | SystemExit int

text \<open>
  The effects of a run, in the order they happen. A system call is recorded with its
  arguments and whether it succeeded; a poll of the Plex server with what it reported;
  a message with the text of its format string and the values printed in it. Reads of
  the file system (\<open>exists\<close>, \<open>isdir\<close>, \<open>listdir\<close>, \<open>stat\<close>) have no effect and are not
  recorded, and neither are the progress lines that no error path prints.
\<close>

datatype event =
    Rename pystr pystr bool
  | Makedirs pystr bool
  | Rmdir pystr bool
  | Remove pystr bool
  | Rmtree pystr bool
  | WriteFile pystr "pystr list" bool
  | Poll bool nat
  | Sleep int
  | Print string "pystr list"

text \<open>
  The state of the process: the file system, the effects so far, the three module globals
  of \<open>plex-dance.py\<close> (\<open>library_temp_dirs\<close> is a dictionary, in insertion order), and
  whether \<open>cleanup_and_restore\<close> is registered with \<open>atexit\<close>.
\<close>

record world =
  fs :: node
  trace :: "event list"
  library_temp_dirs :: "(pystr \<times> pystr) list"
  temp_paths :: "pystr list"
  file_paths :: "pystr list"
  atexit_registered :: bool

definition emit :: "event \<Rightarrow> world \<Rightarrow> world" where
  "emit e w = w\<lparr>trace := trace w @ [e]\<rparr>"

definition print :: "string \<Rightarrow> pystr list \<Rightarrow> world \<Rightarrow> world" where
  "print msg vals w = emit (Print msg vals) w"

subsection \<open>System calls\<close>

definition os_path_exists :: "world \<Rightarrow> pystr \<Rightarrow> bool" where
  "os_path_exists w p = (lookup (fs w) p \<noteq> None)"

definition os_path_isdir :: "world \<Rightarrow> pystr \<Rightarrow> bool" where
  "os_path_isdir w p = (case lookup (fs w) p of Some (Dir _ _) \<Rightarrow> True | _ \<Rightarrow> False)"

definition os_path_isfile :: "world \<Rightarrow> pystr \<Rightarrow> bool" where
  "os_path_isfile w p = (case lookup (fs w) p of Some (File _ _) \<Rightarrow> True | _ \<Rightarrow> False)"

definition os_listdir :: "world \<Rightarrow> pystr \<Rightarrow> exn + pystr list" where
  "os_listdir w p =
     (case lookup (fs w) p of
        None \<Rightarrow> Inl (OSError ENOENT)
      | Some (File _ _) \<Rightarrow> Inl (OSError ENOTDIR)
      | Some (Dir _ ch) \<Rightarrow> Inr (map fst ch))"

text \<open>
  \<open>rename(2)\<close> on the tree. It fails when the source is missing, when the parent of the
  destination is missing or is a file, when the destination lies inside the source, when
  source and destination directory are on different devices, and when the destination
  exists and is not a file replaced by a file or an empty directory replaced by a
  directory. Renaming a path to itself does nothing.
\<close>

definition rename_tree :: "pystr \<Rightarrow> pystr \<Rightarrow> node \<Rightarrow> errno + node" where
  "rename_tree src dst root =
     (let cs = components src; cd = components dst in
      case lookup root src of
        None \<Rightarrow> Inl ENOENT
      | Some n \<Rightarrow>
          if dst = [] \<or> cs = [] \<or> cd = [] then Inl ENOENT
          else case walk (butlast cd) root of
            None \<Rightarrow> Inl ENOENT
          | Some (File _ _) \<Rightarrow> Inl ENOTDIR
          | Some (Dir pd _) \<Rightarrow>
              if cs = cd then Inr root
              else if prefix cs cd then Inl EINVAL
              else if st_dev n \<noteq> pd then Inl EXDEV
              else (case (n, walk cd root) of
                      (Dir _ _, Some (File _ _)) \<Rightarrow> Inl ENOTDIR
                    | (Dir _ _, Some (Dir _ (x # xs))) \<Rightarrow> Inl ENOTEMPTY
                    | (File _ _, Some (Dir _ _)) \<Rightarrow> Inl EISDIR
                    | _ \<Rightarrow>
                        (case alter cs (\<lambda>_. None) root of
                           None \<Rightarrow> Inl ENOENT
                         | Some root' \<Rightarrow>
                             (case alter cd (\<lambda>_. Some n) root' of
                                None \<Rightarrow> Inl ENOENT
                              | Some root'' \<Rightarrow> Inr root''))))"

definition os_rename :: "pystr \<Rightarrow> pystr \<Rightarrow> world \<Rightarrow> (exn + unit) \<times> world" where
  "os_rename src dst w =
     (case rename_tree src dst (fs w) of
        Inl e \<Rightarrow> (Inl (OSError e), emit (Rename src dst False) w)
      | Inr root \<Rightarrow> (Inr (), emit (Rename src dst True) (w\<lparr>fs := root\<rparr>)))"

text \<open>\<open>os.makedirs(p, exist_ok=True)\<close>; the empty path is \<open>FileNotFoundError\<close>.\<close>

definition os_makedirs :: "pystr \<Rightarrow> world \<Rightarrow> (exn + unit) \<times> world" where
  "os_makedirs p w =
     (case (if p = [] then Inl ENOENT else mkdirs (components p) (fs w)) of
        Inl e \<Rightarrow> (Inl (OSError e), emit (Makedirs p False) w)
      | Inr root \<Rightarrow> (Inr (), emit (Makedirs p True) (w\<lparr>fs := root\<rparr>)))"

text \<open>\<open>os.rmdir\<close> removes an empty directory, \<open>os.remove\<close> a file, \<open>shutil.rmtree\<close> a
  directory with all it holds.\<close>

definition remove_tree :: "(node \<Rightarrow> errno option) \<Rightarrow> pystr \<Rightarrow> node \<Rightarrow> errno + node" where
  "remove_tree refuse p root =
     (case lookup root p of
        None \<Rightarrow> Inl ENOENT
      | Some n \<Rightarrow>
          (case refuse n of
             Some e \<Rightarrow> Inl e
           | None \<Rightarrow>
               (case alter (components p) (\<lambda>_. None) root of
                  None \<Rightarrow> Inl EINVAL
                | Some root' \<Rightarrow> Inr root')))"

fun rmdir_refuses :: "node \<Rightarrow> errno option" where
  "rmdir_refuses (File _ _) = Some ENOTDIR"
| "rmdir_refuses (Dir _ []) = None"
| "rmdir_refuses (Dir _ (x # xs)) = Some ENOTEMPTY"

fun remove_refuses :: "node \<Rightarrow> errno option" where
  "remove_refuses (File _ _) = None"
| "remove_refuses (Dir _ _) = Some EISDIR"

fun rmtree_refuses :: "node \<Rightarrow> errno option" where
  "rmtree_refuses (File _ _) = Some ENOTDIR"
| "rmtree_refuses (Dir _ _) = None"

definition os_rmdir :: "pystr \<Rightarrow> world \<Rightarrow> (exn + unit) \<times> world" where
  "os_rmdir p w =
     (case remove_tree rmdir_refuses p (fs w) of
        Inl e \<Rightarrow> (Inl (OSError e), emit (Rmdir p False) w)
      | Inr root \<Rightarrow> (Inr (), emit (Rmdir p True) (w\<lparr>fs := root\<rparr>)))"

definition os_remove :: "pystr \<Rightarrow> world \<Rightarrow> (exn + unit) \<times> world" where
  "os_remove p w =
     (case remove_tree remove_refuses p (fs w) of
        Inl e \<Rightarrow> (Inl (OSError e), emit (Remove p False) w)
      | Inr root \<Rightarrow> (Inr (), emit (Remove p True) (w\<lparr>fs := root\<rparr>)))"

definition shutil_rmtree :: "pystr \<Rightarrow> world \<Rightarrow> (exn + unit) \<times> world" where
  "shutil_rmtree p w =
     (case remove_tree rmtree_refuses p (fs w) of
        Inl e \<Rightarrow> (Inl (OSError e), emit (Rmtree p False) w)
      | Inr root \<Rightarrow> (Inr (), emit (Rmtree p True) (w\<lparr>fs := root\<rparr>)))"

text \<open>
  \<open>with open(p, 'w') as f: f.write(...)\<close>: the file is created in its directory, on the
  directory's device, or replaced; a directory of that name is \<open>IsADirectoryError\<close>.
\<close>

definition write_tree :: "pystr \<Rightarrow> pystr list \<Rightarrow> node \<Rightarrow> errno + node" where
  "write_tree p content root =
     (let cp = components p in
      if p = [] \<or> cp = [] then Inl ENOENT
      else case walk (butlast cp) root of
        None \<Rightarrow> Inl ENOENT
      | Some (File _ _) \<Rightarrow> Inl ENOTDIR
      | Some (Dir pd _) \<Rightarrow>
          (case walk cp root of
             Some (Dir _ _) \<Rightarrow> Inl EISDIR
           | _ \<Rightarrow>
               (case alter cp (\<lambda>_. Some (File pd content)) root of
                  None \<Rightarrow> Inl ENOENT
                | Some root' \<Rightarrow> Inr root')))"

definition write_file :: "pystr \<Rightarrow> pystr list \<Rightarrow> world \<Rightarrow> (exn + unit) \<times> world" where
  "write_file p content w =
     (case write_tree p content (fs w) of
        Inl e \<Rightarrow> (Inl (OSError e), emit (WriteFile p content False) w)
      | Inr root \<Rightarrow> (Inr (), emit (WriteFile p content True) (w\<lparr>fs := root\<rparr>)))"

section \<open>plex-dance.py: moving and restoring one entry\<close>

lemma prefix_take: "s = a @ t \<Longrightarrow> a = take (length a) s"
  by simp

lemma take_len: "a = take k s \<Longrightarrow> length a \<le> length s"
  by simp

lemma rstrip_sep_take: "rstrip_sep s = take (length (rstrip_sep s)) s"
proof -
  have "rev (dropWhile (\<lambda>c. c = 47) (rev s)) @ rev (takeWhile (\<lambda>c. c = 47) (rev s))
          = rev (takeWhile (\<lambda>c. c = 47) (rev s) @ dropWhile (\<lambda>c. c = 47) (rev s))"
    by (simp only: rev_append)
  also have "\<dots> = s" by (simp only: takeWhile_dropWhile_id rev_rev_ident)
  finally have "s = rstrip_sep s @ rev (takeWhile (\<lambda>c. c = 47) (rev s))"
    by (simp only: rstrip_sep_def)
  then show ?thesis by (rule prefix_take)
qed

lemma take_take_le: "take k (take n p) = take k p" if "k \<le> n"
  using that by (simp add: min_def)

lemma dirname_take: "dirname p = take (length (dirname p)) p"
proof -
  let ?h = "path_head p"
  have h: "?h = take (length p - length (path_tail p)) p" by (simp add: path_head_def)
  have hl: "length ?h \<le> length p - length (path_tail p)" unfolding path_head_def by simp
  have "rstrip_sep ?h = take (length (rstrip_sep ?h)) ?h" by (rule rstrip_sep_take)
  moreover have "length (rstrip_sep ?h) \<le> length ?h"
    using rstrip_sep_take[of ?h] by (rule take_len)
  ultimately have "rstrip_sep ?h = take (length (rstrip_sep ?h)) (take (length p - length (path_tail p)) p)"
    using h by simp
  moreover have "length (rstrip_sep ?h) \<le> length p - length (path_tail p)"
    using \<open>length (rstrip_sep ?h) \<le> length ?h\<close> hl by linarith
  ultimately have r: "rstrip_sep ?h = take (length (rstrip_sep ?h)) p"
    by (simp only: take_take_le)
  have h': "?h = take (length ?h) p" unfolding path_head_def by simp
  show ?thesis
  proof (cases "?h \<noteq> [] \<and> ?h \<noteq> replicate (length ?h) 47")
    case True
    then have "dirname p = rstrip_sep ?h" by (simp add: dirname_def Let_def)
    then show ?thesis using r by simp
  next
    case False
    then have "dirname p = ?h" by (auto simp add: dirname_def Let_def)
    then show ?thesis using h' by simp
  qed
qed

lemma dirname_shorter: "dirname p \<noteq> p \<Longrightarrow> length (dirname p) < length p"
proof -
  assume ne: "dirname p \<noteq> p"
  have le: "length (dirname p) \<le> length p"
    using dirname_take[of p] by (rule take_len)
  show ?thesis
  proof (rule ccontr)
    assume "\<not> length (dirname p) < length p"
    then have "length (dirname p) = length p" using le by simp
    then have "take (length (dirname p)) p = p" by simp
    then show False using dirname_take[of p] ne by simp
  qed
qed

text \<open>
  The loop of \<open>are_on_same_filesystem\<close>: from \<open>path2\<close> upwards, the first path that
  exists; \<open>None\<close> when the loop reaches a path that is its own parent.
\<close>

function nearest_existing :: "world \<Rightarrow> pystr \<Rightarrow> pystr option" where
  "nearest_existing w check_path2 =
     (if os_path_exists w check_path2 then Some check_path2
      else (let parent = dirname check_path2
            in if parent = check_path2 then None else nearest_existing w parent))"
  by pat_completeness auto
termination
  by (relation "measure (\<lambda>(w, p). length p)") (auto simp: dirname_shorter)

declare nearest_existing.simps [simp del]

text \<open>\<open>are_on_same_filesystem(path1, path2)\<close>; an \<open>OSError\<close> of \<open>os.stat\<close> is \<open>False\<close>.\<close>

definition are_on_same_filesystem :: "world \<Rightarrow> pystr \<Rightarrow> pystr \<Rightarrow> bool" where
  "are_on_same_filesystem w path1 path2 =
     (case nearest_existing w path2 of
        None \<Rightarrow> False
      | Some check_path2 \<Rightarrow>
          (case lookup (fs w) path1 of
             None \<Rightarrow> False
           | Some stat1 \<Rightarrow>
               (case lookup (fs w) check_path2 of
                  None \<Rightarrow> False
                | Some stat2 \<Rightarrow> st_dev stat1 = st_dev stat2)))"

text \<open>
  The messages of \<open>move_file\<close> name the path and, when \<open>original_plex_path\<close> is given
  and not empty, the Plex path it was translated from.
\<close>

definition report :: "string \<Rightarrow> pystr \<Rightarrow> pystr option \<Rightarrow> world \<Rightarrow> world" where
  "report msg orig_path original_plex_path w =
     (case original_plex_path of
        None \<Rightarrow> print msg [orig_path] w
      | Some p \<Rightarrow> if p = [] then print msg [orig_path] w else print msg [orig_path, p] w)"

text \<open>The messages of the \<open>except\<close> clauses of \<open>move_file\<close>, by the class of the exception.\<close>

fun move_error_message :: "exn \<Rightarrow> string" where
  "move_error_message (OSError ENOENT) = ''File not found''"
| "move_error_message (OSError _) = ''Filesystem error''"
| "move_error_message _ = ''Error moving''"

text \<open>
  The AppleDouble companion of an entry is renamed after the entry, when it exists; an
  exception of that rename is swallowed.
\<close>

definition move_appledouble :: "pystr \<Rightarrow> pystr \<Rightarrow> world \<Rightarrow> world" where
  "move_appledouble orig_path temp_path w =
     (let parent_dir = dirname orig_path;
          basename' = basename orig_path;
          appledouble_orig = join parent_dir (py ''._'' @ basename');
          appledouble_temp = join (dirname temp_path) (py ''._'' @ basename temp_path)
      in if os_path_exists w appledouble_orig
         then snd (os_rename appledouble_orig appledouble_temp w)
         else w)"

text \<open>\<open>move_file(orig_path, temp_path, original_plex_path)\<close>.\<close>

definition move_file :: "pystr \<Rightarrow> pystr \<Rightarrow> pystr option \<Rightarrow> world \<Rightarrow> bool \<times> world" where
  "move_file orig_path temp_path original_plex_path w =
     (if \<not> os_path_exists w orig_path
      then (False, report ''Warning: path does not exist'' orig_path original_plex_path w)
      else case os_makedirs (dirname temp_path) w of
        (Inl e, w1) \<Rightarrow> (False, report (move_error_message e) orig_path original_plex_path w1)
      | (Inr _, w1) \<Rightarrow>
          if \<not> are_on_same_filesystem w1 orig_path temp_path
          then (False, report ''Error: Source and temp directory not on same filesystem''
                         orig_path original_plex_path w1)
          else case os_rename orig_path temp_path w1 of
            (Inl e, w2) \<Rightarrow> (False, report (move_error_message e) orig_path original_plex_path w2)
          | (Inr _, w2) \<Rightarrow> (True, move_appledouble orig_path temp_path w2))"

definition restore_appledouble :: "pystr \<Rightarrow> pystr \<Rightarrow> world \<Rightarrow> world" where
  "restore_appledouble temp_path orig_path w =
     (let temp_basename = basename temp_path;
          orig_basename = basename orig_path;
          appledouble_temp = join (dirname temp_path) (py ''._'' @ temp_basename);
          appledouble_orig = join (dirname orig_path) (py ''._'' @ orig_basename)
      in if os_path_exists w appledouble_temp
         then snd (os_rename appledouble_temp appledouble_orig w)
         else w)"

text \<open>\<open>restore_file(temp_path, orig_path)\<close>.\<close>

definition restore_file :: "pystr \<Rightarrow> pystr \<Rightarrow> world \<Rightarrow> bool \<times> world" where
  "restore_file temp_path orig_path w =
     (case os_makedirs (dirname orig_path) w of
        (Inl e, w1) \<Rightarrow> (False, print ''Error restoring'' [temp_path, orig_path] w1)
      | (Inr _, w1) \<Rightarrow>
          (case os_rename temp_path orig_path w1 of
             (Inl e, w2) \<Rightarrow> (False, print ''Error restoring'' [temp_path, orig_path] w2)
           | (Inr _, w2) \<Rightarrow> (True, restore_appledouble temp_path orig_path w2)))"

section \<open>Reading the record of effects\<close>

text \<open>The effects a step added: what its record holds beyond the record before it.\<close>

definition new_events :: "world \<Rightarrow> world \<Rightarrow> event list" where
  "new_events w w' = drop (length (trace w)) (trace w')"

text \<open>The calls of \<open>os.rename\<close> among some effects, failed or not: source and destination.\<close>

fun rename_attempts :: "event list \<Rightarrow> (pystr \<times> pystr) list" where
  "rename_attempts [] = []"
| "rename_attempts (Rename src dst ok # es) = (src, dst) # rename_attempts es"
| "rename_attempts (e # es) = rename_attempts es"

text \<open>
  The same-device check of \<open>move_file\<close>, as it is made: after \<open>os.makedirs\<close> has created
  the parent of the staging path; an exception of \<open>os.makedirs\<close> ends the move before it.
\<close>

definition same_device_check :: "world \<Rightarrow> pystr \<Rightarrow> pystr \<Rightarrow> bool" where
  "same_device_check w orig_path temp_path =
     (case os_makedirs (dirname temp_path) w of
        (Inl e, w1) \<Rightarrow> False
      | (Inr u, w1) \<Rightarrow> are_on_same_filesystem w1 orig_path temp_path)"

text \<open>
  \<open>later w w'\<close>: the state \<open>w'\<close> comes after \<open>w\<close>, its record of effects continues that of
  \<open>w\<close>. \<open>quiet_step w w'\<close>: moreover no \<open>os.rename\<close> was called in between.
\<close>

definition later :: "world \<Rightarrow> world \<Rightarrow> bool" where
  "later w w' = prefix (trace w) (trace w')"

definition quiet_step :: "world \<Rightarrow> world \<Rightarrow> bool" where
  "quiet_step w w' = (\<exists>es. trace w' = trace w @ es \<and> rename_attempts es = [])"

section \<open>plex-dance.py: crash recovery\<close>

text \<open>
  The entries of a staging directory that \<open>cleanup_and_restore\<close> takes for albums:
  \<open>[f for f in temp_files if not f.startswith('.') and f not in ['lock', 'restore.log']]\<close>.
\<close>

definition album_dirs_of :: "pystr list \<Rightarrow> pystr list" where
  "album_dirs_of temp_files =
     filter (\<lambda>f. \<not> startswith f (py ''.'') \<and> f \<notin> set [py ''lock'', py ''restore.log''])
       temp_files"

text \<open>
  The search \<open>for i, tracked_temp_path in enumerate(temp_paths)\<close> for the first \<open>i\<close> with
  \<open>tracked_temp_path == temp_path and i < len(file_paths)\<close>: it yields \<open>file_paths[i]\<close>, or
  nothing (the \<open>else\<close> of the \<open>for\<close>). Both lists are walked together; once \<open>file_paths\<close>
  is exhausted no later \<open>i\<close> is below its length.
\<close>

fun find_tracked :: "pystr list \<Rightarrow> pystr list \<Rightarrow> pystr \<Rightarrow> pystr option" where
  "find_tracked [] fps temp_path = None"
| "find_tracked (t # ts) [] temp_path = None"
| "find_tracked (t # ts) (f # fps) temp_path =
     (if t = temp_path then Some f else find_tracked ts fps temp_path)"

text \<open>The body of \<open>for temp_file in album_dirs\<close>.\<close>

definition restore_tracked :: "pystr \<Rightarrow> pystr \<Rightarrow> world \<Rightarrow> world" where
  "restore_tracked temp_dir temp_file w =
     (let temp_path = join temp_dir temp_file
      in if os_path_isdir w temp_path
         then (case find_tracked (temp_paths w) (file_paths w) temp_path of
                 Some orig_path \<Rightarrow>
                   (case os_rename temp_path orig_path
                           (print ''Restoring'' [basename temp_path, orig_path] w) of
                      (Inl e, w') \<Rightarrow> print ''Failed to restore'' [temp_path] w'
                    | (Inr u, w') \<Rightarrow> w')
               | None \<Rightarrow>
                   print ''Warning: Could not determine original location'' [temp_path] w)
         else w)"

text \<open>The loop \<open>for remaining_file in os.listdir(temp_dir)\<close> of the manual removal.\<close>

fun remove_remaining :: "pystr \<Rightarrow> pystr list \<Rightarrow> world \<Rightarrow> (exn + unit) \<times> world" where
  "remove_remaining temp_dir [] w = (Inr (), w)"
| "remove_remaining temp_dir (remaining_file # rest) w =
     (let remaining_path = join temp_dir remaining_file
      in if os_path_isfile w remaining_path
         then (case os_remove remaining_path w of
                 (Inl e, w') \<Rightarrow> (Inl e, w')
               | (Inr u, w') \<Rightarrow> remove_remaining temp_dir rest w')
         else remove_remaining temp_dir rest w)"

text \<open>
  The removal of the staging directory: \<open>shutil.rmtree\<close>, and when that raises
  \<open>OSError\<close>, the removal of the remaining files one by one and \<open>os.rmdir\<close>.
\<close>

definition remove_temp_dir :: "pystr \<Rightarrow> world \<Rightarrow> world" where
  "remove_temp_dir temp_dir w =
     (case shutil_rmtree temp_dir w of
        (Inr u, w1) \<Rightarrow> print ''Cleaned up'' [temp_dir] w1
      | (Inl e, w1) \<Rightarrow>
          (let w2 = print ''Warning: Failed to remove temp directory'' [temp_dir] w1
           in case os_listdir w2 temp_dir of
                Inl e' \<Rightarrow> print ''Could not fully clean up'' [temp_dir] w2
              | Inr remaining \<Rightarrow>
                  (case remove_remaining temp_dir remaining w2 of
                     (Inl e', w3) \<Rightarrow> print ''Could not fully clean up'' [temp_dir] w3
                   | (Inr u, w3) \<Rightarrow>
                       (case os_rmdir temp_dir w3 of
                          (Inl e', w4) \<Rightarrow> print ''Could not fully clean up'' [temp_dir] w4
                        | (Inr u', w4) \<Rightarrow>
                            print ''Cleaned up after manual file removal'' [temp_dir] w4))))"

text \<open>
  The body of \<open>for library_root, temp_dir in temp_dirs_to_clean.items()\<close>, with its
  \<open>try\<close> and \<open>except Exception\<close>.
\<close>

definition cleanup_dir :: "pystr \<times> pystr \<Rightarrow> world \<Rightarrow> world" where
  "cleanup_dir entry w =
     (let temp_dir = snd entry
      in if os_path_exists w temp_dir
         then (case os_listdir w temp_dir of
                 Inl e \<Rightarrow> print ''Warning: Failed to clean up'' [temp_dir] w
               | Inr temp_files \<Rightarrow>
                   (let album_dirs = album_dirs_of temp_files;
                        w1 = (if album_dirs \<noteq> []
                              then fold (restore_tracked temp_dir) album_dirs
                                     (print ''Restoring albums from'' [temp_dir] w)
                              else w)
                    in remove_temp_dir temp_dir w1))
         else w)"

text \<open>\<open>cleanup_and_restore()\<close>.\<close>

definition cleanup_and_restore :: "world \<Rightarrow> world" where
  "cleanup_and_restore w =
     (if library_temp_dirs w = [] then w
      else (let temp_dirs_to_clean = library_temp_dirs w;
                w1 = w\<lparr>library_temp_dirs := []\<rparr>
            in fold cleanup_dir temp_dirs_to_clean
                 (print ''Cleaning up and restoring files...'' [] w1)))"

text \<open>
  \<open>signal_handler(signum, frame)\<close>: the recovery, then the \<open>atexit\<close> hook is unregistered
  and \<open>sys.exit(1)\<close> raises \<open>SystemExit\<close>.
\<close>

definition signal_handler :: "world \<Rightarrow> (exn + unit) \<times> world" where
  "signal_handler w =
     (let w1 = cleanup_and_restore (print ''Received signal, cleaning up...'' [] w)
      in (Inl (SystemExit 1), w1\<lparr>atexit_registered := False\<rparr>))"

section \<open>plex-dance.py: asking the Plex server\<close>

text \<open>
  The Plex server, as one poll finds it. \<open>connects\<close>: \<open>PlexServer(url, token)\<close> and
  \<open>plex.library.section(name)\<close> return. \<open>fetchItem\<close> is
  \<open>music_library.fetchItem(int(album_id))\<close> by the identifier as the input file has it: it
  raises, because the server has no such item (\<open>NotFound\<close>), because the server does not
  answer (\<open>ConnectionFailed\<close>) or because \<open>int\<close> rejects the identifier
  (\<open>ValueError\<close>), or it returns an object that is truthy or not. \<open>searchAlbums\<close> is the
  list of all albums, or \<open>None\<close> when the call raises; an album is what \<open>album.tracks()\<close>
  returns, or \<open>None\<close> when it raises; a track is its \<open>locations\<close>, or \<open>None\<close> when it has
  no such attribute.
\<close>

datatype lookup_error = NotFound | ConnectionFailed | ValueError

datatype fetch = FetchRaises lookup_error | FetchReturns bool

type_synonym track = "pystr list option"

type_synonym album = "track list option"

record plex_server =
  connects :: bool
  fetchItem :: "pystr \<Rightarrow> fetch"
  searchAlbums :: "album list option"

text \<open>
  The fast mode, \<open>for album_id in album_ids\<close>: an identifier whose lookup raises is
  skipped (\<open>except Exception: continue\<close>, whatever the exception), the first one that
  yields a truthy album makes the path visible.
\<close>

fun path_has_visible_albums :: "(pystr \<Rightarrow> fetch) \<Rightarrow> pystr list \<Rightarrow> bool" where
  "path_has_visible_albums fetch [] = False"
| "path_has_visible_albums fetch (album_id # album_ids) =
     (case fetch album_id of
        FetchRaises e \<Rightarrow> path_has_visible_albums fetch album_ids
      | FetchReturns album \<Rightarrow>
          if album then True else path_has_visible_albums fetch album_ids)"

text \<open>
  The legacy mode, \<open>for album in all_albums\<close>: the path is visible when the directory of
  the first location of the first track of some album is the path. An exception of
  \<open>album.tracks()\<close> leaves the loop.
\<close>

fun legacy_visible :: "pystr \<Rightarrow> album list \<Rightarrow> exn + bool" where
  "legacy_visible plex_path [] = Inr False"
| "legacy_visible plex_path (album # all_albums) =
     (case album of
        None \<Rightarrow> Inl PlexError
      | Some tracks \<Rightarrow>
          (case tracks of
             Some (track_path # locs) # others \<Rightarrow>
               if dirname track_path = plex_path then Inr True
               else legacy_visible plex_path all_albums
           | _ \<Rightarrow> legacy_visible plex_path all_albums))"

text \<open>The loop \<open>for plex_path, album_ids in moved_albums_with_ids\<close>, which collects
  \<open>still_visible_paths\<close>.\<close>

fun still_visible_paths :: "plex_server \<Rightarrow> (pystr \<times> pystr list) list \<Rightarrow> exn + pystr list" where
  "still_visible_paths plex [] = Inr []"
| "still_visible_paths plex ((plex_path, album_ids) # moved) =
     (case (if album_ids = []
            then (case searchAlbums plex of
                    None \<Rightarrow> Inl PlexError
                  | Some all_albums \<Rightarrow> legacy_visible plex_path all_albums)
            else Inr (path_has_visible_albums (fetchItem plex) album_ids)) of
        Inl e \<Rightarrow> Inl e
      | Inr visible \<Rightarrow>
          (case still_visible_paths plex moved of
             Inl e \<Rightarrow> Inl e
           | Inr rest \<Rightarrow> Inr (if visible then plex_path # rest else rest)))"

text \<open>
  \<open>check_albums_removed_from_plex\<close>: whether no moved path is visible any more, and how
  many still are. Its outer \<open>except Exception\<close> prints a warning and answers that all
  are still visible.
\<close>

definition check_albums_removed_from_plex ::
    "plex_server \<Rightarrow> (pystr \<times> pystr list) list \<Rightarrow> world \<Rightarrow> (bool \<times> nat) \<times> world" where
  "check_albums_removed_from_plex plex moved_albums_with_ids w =
     (if \<not> connects plex
      then ((False, length moved_albums_with_ids),
            print ''Warning: Could not check Plex status'' [] w)
      else case still_visible_paths plex moved_albums_with_ids of
        Inl e \<Rightarrow> ((False, length moved_albums_with_ids),
                  print ''Warning: Could not check Plex status'' [] w)
      | Inr visible \<Rightarrow> ((visible = [], length visible), w))"

text \<open>
  The polling loop of \<open>main\<close>, \<open>while elapsed_time < max_wait_time\<close>, with
  \<open>poll_interval = 5\<close>. \<open>plex k\<close> is the server as poll number \<open>k\<close> finds it;
  \<open>all_removed\<close> is \<open>None\<close> while the variable is unbound. The loop returns the elapsed
  time and \<open>all_removed\<close>.
\<close>

function poll_loop ::
    "(nat \<Rightarrow> plex_server) \<Rightarrow> (pystr \<times> pystr list) list \<Rightarrow> int \<Rightarrow> int \<Rightarrow> nat \<Rightarrow> bool option
       \<Rightarrow> world \<Rightarrow> (int \<times> bool option) \<times> world" where
  "poll_loop plex moved max_wait_time elapsed_time k all_removed w =
     (if elapsed_time < max_wait_time
      then (case check_albums_removed_from_plex (plex k) moved w of
              ((removed, still_visible_count), w1) \<Rightarrow>
                (let w2 = emit (Poll removed still_visible_count) w1
                 in if removed
                    then ((elapsed_time, Some True),
                          print ''Plex has noticed all changes'' [] w2)
                    else poll_loop plex moved max_wait_time (elapsed_time + 5) (Suc k)
                           (Some False)
                           (emit (Sleep 5) (print ''albums still visible'' [] w2))))
      else ((elapsed_time, all_removed), w))"
  by pat_completeness auto
termination
  by (relation "measure (\<lambda>(plex, moved, max_wait_time, elapsed_time, k, all_removed, w).
        nat (max_wait_time - elapsed_time))") auto

declare poll_loop.simps [simp del]

text \<open>
  Phase 2 of \<open>main\<close>. After the loop, \<open>elapsed_time >= max_wait_time and not all_removed\<close>
  reads \<open>all_removed\<close>, which is unbound when the loop body never ran.
\<close>

definition phase2 ::
    "bool \<Rightarrow> int \<Rightarrow> (nat \<Rightarrow> plex_server) \<Rightarrow> (pystr \<times> pystr list) list \<Rightarrow> world
       \<Rightarrow> (exn + unit) \<times> world" where
  "phase2 skip max_wait_time plex moved w =
     (if \<not> skip
      then (case poll_loop plex moved max_wait_time 0 0 None w of
              ((elapsed_time, all_removed), w1) \<Rightarrow>
                if elapsed_time \<ge> max_wait_time
                then (case all_removed of
                        None \<Rightarrow> (Inl UnboundLocalError, w1)
                      | Some removed \<Rightarrow>
                          if \<not> removed
                          then (Inr (), print ''Timeout reached, proceeding with restore...'' [] w1)
                          else (Inr (), w1))
                else (Inr (), w1))
      else (Inr (), print ''Phase 2: Skipping Plex polling'' [] w))"

text \<open>The polls among some effects.\<close>

fun polls :: "event list \<Rightarrow> (bool \<times> nat) list" where
  "polls [] = []"
| "polls (Poll removed n # es) = (removed, n) # polls es"
| "polls (e # es) = polls es"

section \<open>plex-dance.py: the run\<close>

text \<open>
  What \<open>main\<close> gets from the command line: \<open>--path-mapping\<close> (parsed), \<open>--max-wait\<close>
  and \<open>--skip-validation\<close>; \<open>--no-dry-run\<close> is given and, unless validation is skipped,
  so is the token.
\<close>

record args =
  path_mapping :: mapping
  max_wait :: int
  skip_validation :: bool

text \<open>
  What \<open>main\<close> gets from its environment: the table of \<open>str.isalnum\<close> beyond ASCII, the
  process identifier and the formatted time that go into the lock and the recovery log,
  the Plex server at each poll, and the library locations the server reported.
\<close>

record env =
  isalnum_table :: "nat \<Rightarrow> bool"
  getpid :: nat
  strftime :: pystr
  plex_server_at :: "nat \<Rightarrow> plex_server"
  library_locations :: "pystr list"

text \<open>A move operation \<open>(local_path, temp_path, plex_path)\<close>.\<close>

type_synonym move_op = "pystr \<times> pystr \<times> pystr"

text \<open>\<open>apply_path_mapping(p, path_mapping) if path_mapping else p\<close>.\<close>

definition truthy :: "mapping \<Rightarrow> bool" where
  "truthy m = (case m of None \<Rightarrow> False | Some d \<Rightarrow> d \<noteq> [])"

definition map_path :: "args \<Rightarrow> pystr \<Rightarrow> pystr" where
  "map_path a p = (if truthy (path_mapping a) then apply_path_mapping p (path_mapping a) else p)"

text \<open>
  The library root of a Plex path: the first library location that is a prefix of it
  (unless validation is skipped), and the directory of the path when there is none or the
  location is the empty string (\<open>if not library_root\<close>).
\<close>

definition find_library_root :: "args \<Rightarrow> env \<Rightarrow> pystr \<Rightarrow> pystr" where
  "find_library_root a en plex_path =
     (case (if \<not> skip_validation a
            then find (\<lambda>loc. startswith plex_path loc) (library_locations en)
            else None) of
        None \<Rightarrow> dirname plex_path
      | Some loc \<Rightarrow> if loc = [] then dirname plex_path else loc)"

text \<open>
  A staging directory that already exists: without a visible entry it is removed with
  \<open>os.rmdir\<close>, otherwise the run ends with \<open>sys.exit(1)\<close>, after naming the recovery log
  when there is one.
\<close>

definition check_leftover :: "pystr \<Rightarrow> world \<Rightarrow> (exn + unit) \<times> world" where
  "check_leftover temp_dir w =
     (if os_path_exists w temp_dir
      then (case os_listdir w temp_dir of
              Inl e \<Rightarrow> (Inl e, w)
            | Inr names \<Rightarrow>
                (let temp_contents = filter (\<lambda>f. \<not> startswith f (py ''.'')) names
                 in if temp_contents = []
                    then os_rmdir temp_dir
                           (print ''Found empty temp directory, removing'' [temp_dir] w)
                    else (let w1 = print ''This may indicate a previous interrupted run''
                                     []
                                     (print ''Error: Temp directory already exists''
                                        [temp_dir] w);
                              restore_log = join temp_dir (py ''restore.log'')
                          in (Inl (SystemExit 1),
                              if os_path_exists w1 restore_log
                              then print ''To restore files manually, run: bash''
                                     [restore_log] w1
                              else w1))))
      else (Inr (), w))"

text \<open>
  The block \<open>if local_library_parent not in library_temp_dirs\<close>: the leftover check, the
  same-device check of the entry against the staging directory, the creation of the
  directory and of its lock file, and the registration in \<open>library_temp_dirs\<close>.
\<close>

definition acquire_temp_dir :: "env \<Rightarrow> pystr \<Rightarrow> pystr \<Rightarrow> world \<Rightarrow> (exn + unit) \<times> world" where
  "acquire_temp_dir en local_path local_library_parent w =
     (let temp_dir = join local_library_parent (py ''tmp.plexdance'')
      in case check_leftover temp_dir w of
           (Inl e, w1) \<Rightarrow> (Inl e, w1)
         | (Inr u, w1) \<Rightarrow>
             if \<not> are_on_same_filesystem w1 local_path temp_dir
             then (Inl (SystemExit 1),
                   print ''Error: Album directory and temp directory not on same filesystem''
                     [local_path, temp_dir] w1)
             else (case os_makedirs temp_dir w1 of
                     (Inl e, w2) \<Rightarrow> (Inl e, w2)
                   | (Inr u, w2) \<Rightarrow>
                       (case write_file (join temp_dir (py ''lock''))
                               [py ''PID: '' @ str_nat (getpid en), py ''Started: '' @ strftime en] w2 of
                          (Inl e, w3) \<Rightarrow> (Inl e, w3)
                        | (Inr u, w3) \<Rightarrow>
                            (Inr (), w3\<lparr>library_temp_dirs :=
                                         library_temp_dirs w3 @ [(local_library_parent, temp_dir)]\<rparr>))))"

text \<open>The body of \<open>for i, plex_path in enumerate(plex_paths)\<close> in phase 1.\<close>

definition plan_entry ::
    "args \<Rightarrow> env \<Rightarrow> nat \<times> pystr \<Rightarrow> move_op list \<Rightarrow> world \<Rightarrow> (exn + move_op list) \<times> world" where
  "plan_entry a en entry move_operations w =
     (let i = fst entry;
          plex_path = snd entry;
          local_path = map_path a plex_path;
          library_root = find_library_root a en plex_path;
          local_library_root = map_path a library_root;
          local_library_parent = dirname local_library_root
      in case (if map_of (library_temp_dirs w) local_library_parent = None
               then acquire_temp_dir en local_path local_library_parent w
               else (Inr (), w)) of
           (Inl e, w1) \<Rightarrow> (Inl e, w1)
         | (Inr u, w1) \<Rightarrow>
             (case map_of (library_temp_dirs w1) local_library_parent of
                None \<Rightarrow> (Inl KeyError, w1)
              | Some temp_dir \<Rightarrow>
                  (let album_name = basename local_path;
                       artist_name = basename (dirname local_path)
                   in case safe_temp_name (isalnum_table en) i artist_name album_name 255 of
                        None \<Rightarrow> (Inl UnicodeEncodeError, w1)
                      | Some safe_name \<Rightarrow>
                          (let temp_path = join temp_dir safe_name
                           in (Inr (move_operations @ [(local_path, temp_path, plex_path)]),
                               w1\<lparr>temp_paths := temp_paths w1 @ [temp_path]\<rparr>)))))"

fun plan_loop ::
    "args \<Rightarrow> env \<Rightarrow> (nat \<times> pystr) list \<Rightarrow> move_op list \<Rightarrow> world \<Rightarrow> (exn + move_op list) \<times> world" where
  "plan_loop a en [] move_operations w = (Inr move_operations, w)"
| "plan_loop a en (entry # entries) move_operations w =
     (case plan_entry a en entry move_operations w of
        (Inl e, w1) \<Rightarrow> (Inl e, w1)
      | (Inr move_operations1, w1) \<Rightarrow> plan_loop a en entries move_operations1 w1)"

text \<open>
  \<open>shlex.quote\<close>: the empty string is \<open>''\<close>, a string of safe characters
  (\<open>[a-zA-Z0-9_@%+=:,./-]\<close>) is itself, any other is put in single quotes, each single
  quote (39) in it written \<open>'"'"'\<close>.
\<close>

definition shlex_safe :: "nat \<Rightarrow> bool" where
  "shlex_safe c = (ascii_alnum c \<or> c \<in> set (py ''_@%+=:,./-''))"

definition shlex_quote :: "pystr \<Rightarrow> pystr" where
  "shlex_quote s =
     (if s = [] then [39, 39]
      else if list_all shlex_safe s then s
      else [39] @ concat (map (\<lambda>c. if c = 39 then [39, 34, 39, 34, 39] else [c]) s) @ [39])"

text \<open>The line of the recovery log for one move operation, and the whole log of a staging
  directory.\<close>

definition mv_line :: "move_op \<Rightarrow> pystr" where
  "mv_line op = py ''mv '' @ shlex_quote (fst (snd op)) @ py '' '' @ shlex_quote (fst op)"

definition restore_log_lines :: "env \<Rightarrow> pystr \<Rightarrow> move_op list \<Rightarrow> pystr list" where
  "restore_log_lines en temp_dir move_operations =
     [py ''#!/bin/bash'', py ''# Restore script for plex-dance operation'',
      py ''# Generated: '' @ strftime en, []]
     @ map mv_line (filter (\<lambda>op. startswith (fst (snd op)) temp_dir) move_operations)"

text \<open>The loop \<open>for library_root, temp_dir in library_temp_dirs.items()\<close> that writes the
  recovery logs; an exception of \<open>open\<close> ends it.\<close>

fun write_restore_logs ::
    "env \<Rightarrow> (pystr \<times> pystr) list \<Rightarrow> move_op list \<Rightarrow> world \<Rightarrow> (exn + unit) \<times> world" where
  "write_restore_logs en [] move_operations w = (Inr (), w)"
| "write_restore_logs en ((library_root, temp_dir) # dirs) move_operations w =
     (case write_file (join temp_dir (py ''restore.log''))
             (restore_log_lines en temp_dir move_operations) w of
        (Inl e, w1) \<Rightarrow> (Inl e, w1)
      | (Inr u, w1) \<Rightarrow> write_restore_logs en dirs move_operations w1)"

text \<open>
  The loop that executes the moves. A termination signal can arrive during it:
  \<open>signal = Some k\<close> delivers it when \<open>k\<close> moves have been made and the next has not
  begun, and \<open>signal_handler\<close> runs there; \<open>None\<close> is a run without a signal.
\<close>

fun move_loop ::
    "nat option \<Rightarrow> move_op list \<Rightarrow> world \<Rightarrow> (exn + bool list) \<times> world" where
  "move_loop signal [] w = (Inr [], w)"
| "move_loop signal ((local_path, temp_path, plex_path) # ops) w =
     (if signal = Some 0
      then (case signal_handler w of (r, w1) \<Rightarrow> (Inl (SystemExit 1), w1))
      else (case move_file local_path temp_path (Some plex_path) w of
              (result, w1) \<Rightarrow>
                (case move_loop (map_option (\<lambda>k. k - 1) signal) ops w1 of
                   (Inl e, w2) \<Rightarrow> (Inl e, w2)
                 | (Inr results, w2) \<Rightarrow> (Inr (result # results), w2))))"

text \<open>The successfully moved paths with their album identifiers, as each poll lists them.\<close>

definition moved_albums_with_ids ::
    "bool list \<Rightarrow> move_op list \<Rightarrow> (pystr \<times> pystr list) list \<Rightarrow> (pystr \<times> pystr list) list" where
  "moved_albums_with_ids results move_operations album_ids_map =
     map (\<lambda>(result, op). (snd (snd op),
                          (case map_of album_ids_map (snd (snd op)) of
                             None \<Rightarrow> [] | Some ids \<Rightarrow> ids)))
       (filter fst (zip results move_operations))"

text \<open>
  Phase 3. \<open>restore_operations\<close> pairs each path of \<open>file_paths\<close> with \<open>temp_paths[i]\<close>
  when that exists; then each pair is restored.
\<close>

fun restore_operations :: "world \<Rightarrow> nat \<Rightarrow> pystr list \<Rightarrow> exn + (pystr \<times> pystr) list" where
  "restore_operations w i [] = Inr []"
| "restore_operations w i (orig_path # rest) =
     (if i < length (temp_paths w)
      then (case restore_operations w (Suc i) rest of
              Inl e \<Rightarrow> Inl e
            | Inr ops \<Rightarrow>
                Inr (if os_path_exists w (temp_paths w ! i)
                     then (temp_paths w ! i, orig_path) # ops else ops))
      else Inl IndexError)"

fun restore_loop :: "(pystr \<times> pystr) list \<Rightarrow> world \<Rightarrow> bool list \<times> world" where
  "restore_loop [] w = ([], w)"
| "restore_loop ((temp_path, orig_path) # ops) w =
     (case restore_file temp_path orig_path w of
        (result, w1) \<Rightarrow> (case restore_loop ops w1 of (results, w2) \<Rightarrow> (result # results, w2)))"

definition phase3 :: "world \<Rightarrow> (exn + unit) \<times> world" where
  "phase3 w =
     (case restore_operations w 0 (file_paths w) of
        Inl e \<Rightarrow> (Inl e, w)
      | Inr ops \<Rightarrow>
          (case restore_loop ops w of
             (results, w1) \<Rightarrow>
               (Inr (), (if filter Not results \<noteq> []
                         then print ''Warning: files failed to restore'' [] w1 else w1)
                          \<lparr>library_temp_dirs := [], temp_paths := [], file_paths := []\<rparr>)))"

text \<open>Phases 2 and 3: the wait for the Plex server, then the restore.\<close>

definition wait_and_restore ::
    "args \<Rightarrow> env \<Rightarrow> (pystr \<times> pystr list) list \<Rightarrow> world \<Rightarrow> (exn + unit) \<times> world" where
  "wait_and_restore a en moved w =
     (case phase2 (skip_validation a) (max_wait a) (plex_server_at en) moved w of
        (Inl e, w1) \<Rightarrow> (Inl e, w1)
      | (Inr u, w1) \<Rightarrow> phase3 w1)"

text \<open>
  Phase 1: the planning loop, the recovery logs, the moves. It yields the move operations
  and the result of each move.
\<close>

definition stage ::
    "args \<Rightarrow> env \<Rightarrow> pystr list \<Rightarrow> nat option \<Rightarrow> world
       \<Rightarrow> (exn + move_op list \<times> bool list) \<times> world" where
  "stage a en plex_paths signal w =
     (case plan_loop a en (enumerate 0 plex_paths) [] w of
        (Inl e, w1) \<Rightarrow> (Inl e, w1)
      | (Inr move_operations, w1) \<Rightarrow>
          (case write_restore_logs en (library_temp_dirs w1) move_operations w1 of
             (Inl e, w2) \<Rightarrow> (Inl e, w2)
           | (Inr u, w2) \<Rightarrow>
               (case move_loop signal move_operations w2 of
                  (Inl e, w3) \<Rightarrow> (Inl e, w3)
                | (Inr results, w3) \<Rightarrow> (Inr (move_operations, results), w3))))"

text \<open>
  The body of the \<open>try\<close> of \<open>main\<close>. Only after the moves does \<open>file_paths\<close> get the local
  paths; when no move succeeded, \<open>main\<close> returns.
\<close>

definition main_body ::
    "args \<Rightarrow> env \<Rightarrow> pystr list \<Rightarrow> (pystr \<times> pystr list) list \<Rightarrow> nat option \<Rightarrow> world
       \<Rightarrow> (exn + unit) \<times> world" where
  "main_body a en plex_paths album_ids_map signal w =
     (case stage a en plex_paths signal w of
        (Inl e, w1) \<Rightarrow> (Inl e, w1)
      | (Inr (move_operations, results), w1) \<Rightarrow>
          (let w2 = w1\<lparr>file_paths := map fst move_operations\<rparr>;
               failed_moves = length (filter Not results);
               successful_moves = length results - failed_moves;
               w3 = (if failed_moves > 0 then print ''Warning: files failed to move'' [] w2
                     else w2)
           in if successful_moves = 0
              then (Inr (), print ''No files were successfully moved. Exiting without waiting.''
                              [] w3)
              else wait_and_restore a en
                     (moved_albums_with_ids results move_operations album_ids_map) w3))"

text \<open>
  The process from the start of \<open>main\<close> to its exit. When phase 1 begins the globals are
  as the start of \<open>main\<close> left them: \<open>file_paths\<close> holds the paths read from the input,
  which are the Plex paths, and the other two are empty. \<open>main\<close> re-raises an exception
  after a message; at exit the \<open>atexit\<close> hook runs when it is still registered. The
  result is the exit code and the final state.
\<close>

definition initial_world :: "node \<Rightarrow> pystr list \<Rightarrow> world" where
  "initial_world root plex_paths =
     \<lparr>fs = root, trace = [], library_temp_dirs = [], temp_paths = [],
      file_paths = plex_paths, atexit_registered = True\<rparr>"

definition at_exit :: "world \<Rightarrow> world" where
  "at_exit w = (if atexit_registered w then cleanup_and_restore w else w)"

definition run ::
    "args \<Rightarrow> env \<Rightarrow> pystr list \<Rightarrow> (pystr \<times> pystr list) list \<Rightarrow> nat option \<Rightarrow> node
       \<Rightarrow> int \<times> world" where
  "run a en plex_paths album_ids_map signal root =
     (case main_body a en plex_paths album_ids_map signal (initial_world root plex_paths) of
        (Inr u, w) \<Rightarrow> (0, at_exit w)
      | (Inl (SystemExit code), w) \<Rightarrow> (code, at_exit w)
      | (Inl e, w) \<Rightarrow> (1, at_exit (print ''Error during operation'' [] w)))"

section \<open>plex-dance.py: staging roots\<close>




section \<open>Concrete file systems, for running the model\<close>

text \<open>
  A music library \<open>/m\<close> on device 1 with the album \<open>/m/A/B\<close>, and an empty directory
  \<open>/mnt\<close> that is the mount point of device 2.
\<close>

definition two_devices :: world where
  "two_devices = \<lparr>fs = Dir 1 [(py ''m'', Dir 1 [(py ''A'', Dir 1 [(py ''B'', Dir 1 [])])]), (py ''mnt'', Dir 2 [])],
         trace = [], library_temp_dirs = [], temp_paths = [], file_paths = [], atexit_registered = True\<rparr>"

text \<open>
  The state of a run after staging: the album \<open>/m/A/B\<close> has been moved to the staging
  directory \<open>/m/tmp.plexdance\<close>, which holds the lock and the recovery log, and the globals
  track it. In \<open>staged_world\<close> the artist directory \<open>/m/A\<close> is still there; in
  \<open>stuck_world\<close> it has been removed since, so the album cannot be renamed back.
\<close>

definition staged_world :: world where
  "staged_world = \<lparr>fs = Dir 1 [(py ''m'', Dir 1 [(py ''A'', Dir 1 []),
       (py ''tmp.plexdance'', Dir 1 [(py ''lock'', File 1 []), (py ''restore.log'', File 1 []),
          (py ''0_A_B'', Dir 1 [(py ''track.flac'', File 1 [])])])])],
     trace = [], library_temp_dirs = [(py ''/m'', py ''/m/tmp.plexdance'')],
     temp_paths = [py ''/m/tmp.plexdance/0_A_B''], file_paths = [py ''/m/A/B''],
     atexit_registered = True\<rparr>"

definition stuck_world :: world where
  "stuck_world = \<lparr>fs = Dir 1 [(py ''m'', Dir 1 [
       (py ''tmp.plexdance'', Dir 1 [(py ''lock'', File 1 []), (py ''restore.log'', File 1 []),
          (py ''0_A_B'', Dir 1 [(py ''track.flac'', File 1 [])])])])],
     trace = [], library_temp_dirs = [(py ''/m'', py ''/m/tmp.plexdance'')],
     temp_paths = [py ''/m/tmp.plexdance/0_A_B''], file_paths = [py ''/m/A/B''],
     atexit_registered = True\<rparr>"

text \<open>
  Two Plex servers: one that cannot be reached, and one that accepts the connection and
  then stops answering, so that every lookup of an album identifier fails.
\<close>

definition down_server :: plex_server where
  "down_server = \<lparr>connects = False, fetchItem = (\<lambda>album_id. FetchRaises ConnectionFailed), searchAlbums = None\<rparr>"

definition flaky_server :: plex_server where
  "flaky_server = \<lparr>connects = True, fetchItem = (\<lambda>album_id. FetchRaises ConnectionFailed), searchAlbums = None\<rparr>"

text \<open>
  A Plex server that still lists every album it is asked for, and a run that polls it with
  \<open>--max-wait 10\<close>.
\<close>

definition seen_server :: plex_server where
  "seen_server = \<lparr>connects = True, fetchItem = (\<lambda>album_id. FetchReturns True), searchAlbums = Some []\<rparr>"

definition polling_args :: args where
  "polling_args = \<lparr>path_mapping = None, max_wait = 10, skip_validation = False\<rparr>"

definition polling_env :: env where
  "polling_env = \<lparr>isalnum_table = ascii_only, getpid = 4242, strftime = py ''2024-01-01 00:00:00'',
       plex_server_at = (\<lambda>k. seen_server), library_locations = []\<rparr>"

text \<open>
  A music library \<open>/Users/u/Music\<close> with three albums of one artist, which the Plex server
  sees as \<open>/media/Music\<close>; the arguments of a run with that path mapping and of a run
  without one, both without validation; and the three albums as Plex names them and as the
  local file system does.
\<close>

definition music_library :: node where
  "music_library = Dir 1 [(py ''Users'', Dir 1 [(py ''u'', Dir 1 [(py ''Music'', Dir 1
      [(py ''A'', Dir 1 [(py ''B'', Dir 1 [(py ''t.flac'', File 1 [])]),
                         (py ''C'', Dir 1 [(py ''t.flac'', File 1 [])]),
                         (py ''D'', Dir 1 [(py ''t.flac'', File 1 [])])])])])])]"

definition mapped_args :: args where
  "mapped_args = \<lparr>path_mapping = Some [(''local_root'', py ''/Users/u/Music''),
                                         (''plex_root'', py ''/media/Music'')],
                  max_wait = 10, skip_validation = True\<rparr>"

definition plex_paths3 :: "pystr list" where
  "plex_paths3 = [py ''/media/Music/A/B'', py ''/media/Music/A/C'', py ''/media/Music/A/D'']"

definition plain_args :: args where
  "plain_args = \<lparr>path_mapping = None, max_wait = 10, skip_validation = True\<rparr>"

definition local_paths3 :: "pystr list" where
  "local_paths3 = [py ''/Users/u/Music/A/B'', py ''/Users/u/Music/A/C'', py ''/Users/u/Music/A/D'']"





section \<open>Path mapping is a raw prefix substitution\<close>

lemma replace1_prefix: "prefix old s \<Longrightarrow> replace1 s old new = new @ drop (length old) s"
  by (cases s) auto

text \<open>
  C10. Path resolution substitutes a raw string prefix: whatever follows the source root
  \<open>plex_root\<close> in the path, a path separator or not, the result is the destination root
  \<open>local_root\<close> followed by that remainder.
\<close>

theorem apply_path_mapping_raw_prefix:
  assumes "map_of m ''local_root'' = Some local_root"
    and "map_of m ''plex_root'' = Some plex_root"
  shows "apply_path_mapping (plex_root @ rest) (Some m) = local_root @ rest"
  using assms by (simp add: apply_path_mapping_def startswith_def replace1_prefix)

theorem apply_path_mapping_raw_prefix_witness:
  "apply_path_mapping (py ''/media/Music2/x'')
     (Some [(''local_root'', py ''/Users/u/Music''), (''plex_root'', py ''/media/Music'')])
   = py ''/Users/u/Music2/x''"
  using apply_path_mapping_raw_prefix
    [of "[(''local_root'', py ''/Users/u/Music''), (''plex_root'', py ''/media/Music'')]"
        "py ''/Users/u/Music''" "py ''/media/Music''" "py ''2/x''"]
  by (simp add: py_def)

section \<open>UTF-8: decoding inverts encoding\<close>

lemma dm64: "r < 64 \<Longrightarrow> (q * 64 + r) div 64 = (q::nat)"
  by simp

lemma mm64: "r < 64 \<Longrightarrow> (q * 64 + r) mod 64 = (r::nat)"
  by simp

lemma split3:
  assumes y: "y < 64" and z: "z < 64"
  shows "(x * 4096 + y * 64 + z) div 4096 = (x::nat) \<and> (x * 4096 + y * 64 + z) div 64 mod 64 = y \<and>
   (x * 4096 + y * 64 + z) mod 64 = z"
proof -
  let ?c = "x * 4096 + y * 64 + z"
  have e: "?c = (x * 64 + y) * 64 + z" by simp
  have a: "?c div 64 = x * 64 + y" by (simp only: e dm64[OF z])
  have b: "?c mod 64 = z" by (simp only: e mm64[OF z])
  have "?c div 4096 = ?c div 64 div 64" by (simp add: div_mult2_eq)
  then have c: "?c div 4096 = x" by (simp only: a dm64[OF y])
  have d: "?c div 64 mod 64 = y" by (simp only: a mm64[OF y])
  show ?thesis using b c d by blast
qed

lemma split4:
  assumes y: "y < 64" and z: "z < 64" and u: "u < 64"
  shows "(x * 262144 + y * 4096 + z * 64 + u) div 262144 = (x::nat) \<and>
   (x * 262144 + y * 4096 + z * 64 + u) div 4096 mod 64 = y \<and>
   (x * 262144 + y * 4096 + z * 64 + u) div 64 mod 64 = z \<and>
   (x * 262144 + y * 4096 + z * 64 + u) mod 64 = u"
proof -
  let ?c = "x * 262144 + y * 4096 + z * 64 + u"
  let ?d = "x * 4096 + y * 64 + z"
  have e: "?c = ?d * 64 + u" by simp
  have a: "?c div 64 = ?d" by (simp only: e dm64[OF u])
  have b: "?c mod 64 = u" by (simp only: e mm64[OF u])
  have "?c div 4096 = ?c div 64 div 64" by (simp add: div_mult2_eq)
  then have c: "?c div 4096 = ?d div 64" by (simp only: a)
  have "?c div 262144 = ?c div 64 div 4096" by (simp add: div_mult2_eq)
  then have d: "?c div 262144 = ?d div 4096" by (simp only: a)
  from split3[OF y z, of x] have s: "?d div 4096 = x" "?d div 64 mod 64 = y" "?d mod 64 = z"
    by blast+
  show ?thesis unfolding d c a b by (simp only: s)
qed

lemma join3: "(c::nat) div 4096 * 4096 + c div 64 mod 64 * 64 + c mod 64 = c"
proof -
  let ?q = "c div 64"
  have h: "c div 4096 = ?q div 64" by (simp add: div_mult2_eq)
  have "?q div 64 * 4096 + ?q mod 64 * 64 = (?q div 64 * 64 + ?q mod 64) * 64"
    by (simp only: add_mult_distrib mult.assoc)
  also have "\<dots> = ?q * 64" by (simp only: div_mult_mod_eq)
  finally have "c div 4096 * 4096 + ?q mod 64 * 64 + c mod 64 = ?q * 64 + c mod 64"
    by (simp only: h)
  then show ?thesis by (simp only: div_mult_mod_eq)
qed

lemma join4:
  "(c::nat) div 262144 * 262144 + c div 4096 mod 64 * 4096 + c div 64 mod 64 * 64 + c mod 64 = c"
proof -
  let ?q = "c div 64"
  have h1: "c div 262144 = ?q div 4096" by (simp add: div_mult2_eq)
  have h2: "c div 4096 = ?q div 64" by (simp add: div_mult2_eq)
  have "?q div 4096 * 262144 + ?q div 64 mod 64 * 4096 + ?q mod 64 * 64
      = (?q div 4096 * 4096 + ?q div 64 mod 64 * 64 + ?q mod 64) * 64"
    by (simp only: add_mult_distrib mult.assoc)
  also have "\<dots> = ?q * 64" by (simp only: join3)
  finally have "c div 262144 * 262144 + c div 4096 mod 64 * 4096 + ?q mod 64 * 64 + c mod 64
      = ?q * 64 + c mod 64"
    by (simp only: h1 h2)
  then show ?thesis by (simp only: div_mult_mod_eq)
qed

lemma utf8_char_decode:
  assumes "utf8_char c = Some bs"
  shows "utf8_decode (bs @ r) = map_option ((#) c) (utf8_decode r)"
proof -
  consider "c < 0x80" | "0x80 \<le> c" "c < 0x800" | "0x800 \<le> c" "c < 0x10000"
    | "0x10000 \<le> c" "c < 0x110000" | "0x110000 \<le> c"
    by linarith
  then show ?thesis
  proof cases
    case 1
    then show ?thesis using assms by (auto simp: utf8_char_def)
  next
    case 2
    then have bs: "bs = [0xC0 + c div 64, 0x80 + c mod 64]"
      using assms by (simp add: utf8_char_def)
    have q: "2 \<le> c div 64" "c div 64 < 32" using 2 by simp_all
    have m: "c mod 64 < 64" by simp
    show ?thesis unfolding bs using q m by (simp add: cont_def)
  next
    case 3
    then have ns: "\<not> (0xD800 \<le> c \<and> c \<le> 0xDFFF)"
      and bs: "bs = [0xE0 + c div 4096, 0x80 + c div 64 mod 64, 0x80 + c mod 64]"
      using assms by (auto simp: utf8_char_def split: if_splits)
    have q: "c div 4096 < 16" using 3 by simp
    show ?thesis unfolding bs using q 3 ns by (simp add: cont_def join3 Let_def)
  next
    case 4
    then have bs: "bs = [0xF0 + c div 262144, 0x80 + c div 4096 mod 64, 0x80 + c div 64 mod 64,
              0x80 + c mod 64]"
      using assms by (auto simp: utf8_char_def split: if_splits)
    have q: "c div 262144 < 5" using 4 by simp
    show ?thesis unfolding bs using q 4 by (simp add: cont_def join4 Let_def)
  next
    case 5
    then show ?thesis using assms by (simp add: utf8_char_def)
  qed
qed

lemma utf8_encode_decode_append:
  "utf8_encode t = Some bs \<Longrightarrow> utf8_decode (bs @ r) = map_option ((@) t) (utf8_decode r)"
proof (induction t arbitrary: bs)
  case Nil
  then show ?case by (simp add: option.map_ident)
next
  case (Cons c t)
  then obtain b1 b2 where c: "utf8_char c = Some b1" and t: "utf8_encode t = Some b2"
    and bs: "bs = b1 @ b2"
    by (auto split: option.splits)
  show ?case unfolding bs using utf8_char_decode[OF c] Cons.IH[OF t]
    by (simp add: option.map_comp comp_def)
qed

lemma utf8_encode_decode: "utf8_encode t = Some bs \<Longrightarrow> utf8_decode bs = Some t"
  using utf8_encode_decode_append[of t bs "[]"] by simp

lemma utf8_encode_prefix:
  assumes "utf8_encode t = Some bt" and "utf8_encode s = Some bs" and "prefix bt bs"
  shows "prefix t s"
proof -
  from assms(3) obtain r where r: "bs = bt @ r" by (auto simp: prefix_def)
  have "utf8_decode bs = Some s" using assms(2) by (rule utf8_encode_decode)
  then have "map_option ((@) t) (utf8_decode r) = Some s"
    using utf8_encode_decode_append[OF assms(1), of r] r by simp
  then show ?thesis by (auto simp: prefix_def)
qed

lemma utf8_char2:
  assumes "0xC2 \<le> b" "b < 0xE0" "cont b1"
  shows "utf8_char ((b - 0xC0) * 64 + (b1 - 0x80)) = Some [b, b1]"
proof -
  let ?x = "b - 0xC0" and ?y = "b1 - 0x80"
  have y: "?y < 64" using assms(3) by (auto simp: cont_def)
  have x: "2 \<le> ?x" "?x < 32" using assms by auto
  have d: "(?x * 64 + ?y) div 64 = ?x" by (rule dm64[OF y])
  have m: "(?x * 64 + ?y) mod 64 = ?y" by (rule mm64[OF y])
  have lo: "0x80 \<le> ?x * 64 + ?y" using x by linarith
  have hi: "?x * 64 + ?y < 0x800" using x y by linarith
  have "utf8_char (?x * 64 + ?y) = Some [0xC0 + (?x * 64 + ?y) div 64, 0x80 + (?x * 64 + ?y) mod 64]"
    using lo hi unfolding utf8_char_def by (simp del: div_mult_self3 div_mult_self4 mod_mult_self3 mod_mult_self4)
  then show ?thesis unfolding d m using assms by (simp add: cont_def)
qed

lemma utf8_char3:
  assumes "0xE0 \<le> b" "b < 0xF0" "cont b1" "cont b2"
    and c: "c = (b - 0xE0) * 4096 + (b1 - 0x80) * 64 + (b2 - 0x80)"
    and lo: "0x800 \<le> c" and ns: "\<not> (0xD800 \<le> c \<and> c \<le> 0xDFFF)"
  shows "utf8_char c = Some [b, b1, b2]"
proof -
  let ?x = "b - 0xE0" and ?y = "b1 - 0x80" and ?z = "b2 - 0x80"
  have y: "?y < 64" using assms(3) by (auto simp: cont_def)
  have z: "?z < 64" using assms(4) by (auto simp: cont_def)
  have x: "?x < 16" using assms by auto
  from split3[OF y z, of ?x] have s: "c div 4096 = ?x" "c div 64 mod 64 = ?y" "c mod 64 = ?z"
    unfolding c by blast+
  have hi: "c < 0x10000" unfolding c using x y z by linarith
  have "utf8_char c = Some [0xE0 + c div 4096, 0x80 + c div 64 mod 64, 0x80 + c mod 64]"
    using lo hi ns unfolding utf8_char_def by simp
  then show ?thesis unfolding s using assms(1-4) by (simp add: cont_def)
qed

lemma utf8_char4:
  assumes "0xF0 \<le> b" "b < 0xF5" "cont b1" "cont b2" "cont b3"
    and c: "c = (b - 0xF0) * 262144 + (b1 - 0x80) * 4096 + (b2 - 0x80) * 64 + (b3 - 0x80)"
    and lo: "0x10000 \<le> c" and hi: "c < 0x110000"
  shows "utf8_char c = Some [b, b1, b2, b3]"
proof -
  let ?x = "b - 0xF0" and ?y = "b1 - 0x80" and ?z = "b2 - 0x80" and ?u = "b3 - 0x80"
  have y: "?y < 64" using assms(3) by (auto simp: cont_def)
  have z: "?z < 64" using assms(4) by (auto simp: cont_def)
  have u: "?u < 64" using assms(5) by (auto simp: cont_def)
  from split4[OF y z u, of ?x]
  have s: "c div 262144 = ?x" "c div 4096 mod 64 = ?y" "c div 64 mod 64 = ?z" "c mod 64 = ?u"
    unfolding c by blast+
  have "utf8_char c = Some [0xF0 + c div 262144, 0x80 + c div 4096 mod 64,
      0x80 + c div 64 mod 64, 0x80 + c mod 64]"
    using lo hi unfolding utf8_char_def by simp
  then show ?thesis unfolding s using assms(1-5) by (simp add: cont_def)
qed

lemma utf8_decode_encode: "utf8_decode bs = Some t \<Longrightarrow> utf8_encode t = Some bs"
proof (induction bs arbitrary: t rule: utf8_decode.induct)
  case 1
  then show ?case by simp
next
  case (2 b bs)
  consider "b < 0x80" | "0xC2 \<le> b" "b < 0xE0" | "0xE0 \<le> b" "b < 0xF0" | "0xF0 \<le> b" "b < 0xF5"
    | "0x80 \<le> b" "b < 0xC2" | "0xF5 \<le> b"
    by linarith
  then show ?case
  proof cases
    case 1
    with "2.prems" obtain t' where t': "utf8_decode bs = Some t'" "t = b # t'" by auto
    from "2.IH"(1)[OF 1 t'(1)] show ?thesis using 1 t'(2) by (simp add: utf8_char_def)
  next
    case 2
    with "2.prems" obtain b1 r t' where p: "bs = b1 # r" "cont b1" "utf8_decode r = Some t'"
      "t = ((b - 0xC0) * 64 + (b1 - 0x80)) # t'"
      by (auto split: list.splits if_splits)
    have nb: "\<not> b < 0x80" using 2 by simp
    have bb: "0xC2 \<le> b \<and> b < 0xE0" using 2 by simp
    from "2.IH"(2)[OF nb bb p(1) p(2) p(3)] have "utf8_encode t' = Some r" .
    then show ?thesis using utf8_char2[OF 2 p(2)] p by simp
  next
    case 3
    with "2.prems" obtain b1 b2 r t' c where p: "bs = b1 # b2 # r" "cont b1" "cont b2"
      "c = (b - 0xE0) * 4096 + (b1 - 0x80) * 64 + (b2 - 0x80)" "0x800 \<le> c"
      "\<not> (0xD800 \<le> c \<and> c \<le> 0xDFFF)" "utf8_decode r = Some t'" "t = c # t'"
      by (auto split: list.splits if_splits simp: Let_def)
    have nb: "\<not> b < 0x80" "\<not> (0xC2 \<le> b \<and> b < 0xE0)" "0xE0 \<le> b \<and> b < 0xF0" using 3 by simp_all
    have "utf8_encode t' = Some r"
      by (rule "2.IH"(3)[OF nb p(1) refl p(4)]) (use p in auto)
    then show ?thesis using utf8_char3[OF 3 p(2) p(3) p(4) p(5) p(6)] p by simp
  next
    case 4
    with "2.prems" obtain b1 b2 b3 r t' c where p: "bs = b1 # b2 # b3 # r" "cont b1" "cont b2"
      "cont b3"
      "c = (b - 0xF0) * 262144 + (b1 - 0x80) * 4096 + (b2 - 0x80) * 64 + (b3 - 0x80)"
      "0x10000 \<le> c" "c < 0x110000" "utf8_decode r = Some t'" "t = c # t'"
      by (auto split: list.splits if_splits simp: Let_def)
    have nb: "\<not> b < 0x80" "\<not> (0xC2 \<le> b \<and> b < 0xE0)" "\<not> (0xE0 \<le> b \<and> b < 0xF0)"
      "0xF0 \<le> b \<and> b < 0xF5" using 4 by simp_all
    have "utf8_encode t' = Some r"
      by (rule "2.IH"(4)[OF nb p(1) refl refl p(5)]) (use p in auto)
    then show ?thesis using utf8_char4[OF 4 p(2) p(3) p(4) p(5) p(6) p(7)] p by simp
  next
    case 5
    with "2.prems" show ?thesis by simp
  next
    case 6
    with "2.prems" show ?thesis by simp
  qed
qed

lemma utf8_encode_append:
  "utf8_encode (a @ b) =
     (case utf8_encode a of None \<Rightarrow> None
      | Some x \<Rightarrow> (case utf8_encode b of None \<Rightarrow> None | Some y \<Rightarrow> Some (x @ y)))"
  by (induction a) (auto split: option.splits)

lemma utf8_encode_ascii: "\<forall>c\<in>set s. c < 128 \<Longrightarrow> utf8_encode s = Some s"
  by (induction s) (auto simp: utf8_char_def)

lemma utf8_char_scalar: "scalar c \<Longrightarrow> \<exists>bs. utf8_char c = Some bs"
  by (auto simp: scalar_def utf8_char_def)

lemma utf8_encode_scalar: "\<forall>c\<in>set s. scalar c \<Longrightarrow> \<exists>bs. utf8_encode s = Some bs"
proof (induction s)
  case Nil
  then show ?case by simp
next
  case (Cons c s)
  then obtain bs where "utf8_encode s = Some bs" by auto
  moreover obtain b where "utf8_char c = Some b" using Cons.prems utf8_char_scalar by auto
  ultimately show ?case by simp
qed

section \<open>Staging names\<close>

lemma slice_to_length: "0 \<le> n \<Longrightarrow> int (length (slice_to s n)) \<le> n"
  by (simp add: slice_to_def)

lemma slice_to_set: "set (slice_to s n) \<subseteq> set s"
  by (auto simp: slice_to_def dest: in_set_takeD)

lemma utf8_char_nonempty: "utf8_char c = Some bs \<Longrightarrow> bs \<noteq> []"
  by (auto simp: utf8_char_def split: if_splits)

lemma utf8_encode_nonempty: "utf8_encode s = Some e \<Longrightarrow> s \<noteq> [] \<Longrightarrow> e \<noteq> []"
  by (cases s) (auto split: option.splits dest: utf8_char_nonempty)

lemma try_decode_max:
  "try_decode encoded m = Some t \<Longrightarrow>
     \<exists>i. 0 < i \<and> i \<le> m \<and> utf8_decode (take i encoded) = Some t
        \<and> (\<forall>j. i < j \<and> j \<le> m \<longrightarrow> utf8_decode (take j encoded) = None)"
proof (induction m)
  case 0
  then show ?case by simp
next
  case (Suc m)
  show ?case
  proof (cases "utf8_decode (take (Suc m) encoded)")
    case None
    with Suc.prems have "try_decode encoded m = Some t" by simp
    from Suc.IH[OF this] obtain i where i: "0 < i" "i \<le> m" "utf8_decode (take i encoded) = Some t"
      "\<forall>j. i < j \<and> j \<le> m \<longrightarrow> utf8_decode (take j encoded) = None" by blast
    have "\<forall>j. i < j \<and> j \<le> Suc m \<longrightarrow> utf8_decode (take j encoded) = None"
      using i(4) None by (metis le_Suc_eq)
    then show ?thesis using i(1,2,3) by (intro exI[of _ i]) simp
  next
    case (Some u)
    with Suc.prems have "u = t" by simp
    with Some show ?thesis by (intro exI[of _ "Suc m"]) auto
  qed
qed

lemma try_decode_None:
  "try_decode encoded m = None \<Longrightarrow> 0 < j \<Longrightarrow> j \<le> m \<Longrightarrow> utf8_decode (take j encoded) = None"
proof (induction m)
  case 0
  then show ?case by simp
next
  case (Suc m)
  then show ?case by (cases "j = Suc m") (auto split: option.splits)
qed

lemma prefix_encoding:
  assumes "utf8_encode text = Some encoded" and "prefix p text"
  shows "\<exists>ep. utf8_encode p = Some ep \<and> prefix ep encoded"
proof -
  from assms(2) obtain q where q: "text = p @ q" by (auto simp: prefix_def)
  show ?thesis using assms(1) unfolding q
    by (auto simp: utf8_encode_append split: option.splits)
qed

lemma fits_prefix_decodes:
  assumes enc: "utf8_encode text = Some encoded" and p: "prefix p text" and f: "fits p n"
  shows "\<exists>ep. utf8_encode p = Some ep \<and> int (length ep) \<le> n
            \<and> utf8_decode (take (length ep) encoded) = Some p"
proof -
  from prefix_encoding[OF enc p] obtain ep where ep: "utf8_encode p = Some ep" "prefix ep encoded"
    by blast
  have t: "take (length ep) encoded = ep" using ep(2) by (auto simp: prefix_def)
  have "utf8_decode ep = Some p" using ep(1) by (rule utf8_encode_decode)
  then show ?thesis using ep(1) f t by (simp add: fits_def)
qed

lemma slice_to_Nil: "slice_to [] n = []"
  by (simp add: slice_to_def)

lemma truncate_utf8_safe_whole:
  assumes enc: "utf8_encode text = Some encoded"
  shows "\<exists>r. truncate_utf8_safe text n = Some r \<and> whole_cut r text n \<and> (0 \<le> n \<longrightarrow> fits r n)"
proof (cases "int (length encoded) \<le> n")
  case True
  then have r: "truncate_utf8_safe text n = Some text" using enc by (simp add: truncate_utf8_safe_def)
  have f: "fits text n" using enc True by (simp add: fits_def)
  have "whole_cut text text n"
  proof (cases "\<exists>p\<in>set (prefixes text). p \<noteq> [] \<and> fits p n")
    case True
    then show ?thesis using f by (simp add: whole_cut_def)
  next
    case False
    then have "text = []" using f by auto
    then show ?thesis using False by (simp add: whole_cut_def slice_to_Nil)
  qed
  then show ?thesis using r f by blast
next
  case long: False
  show ?thesis
  proof (cases "try_decode encoded (nat n)")
    case None
    let ?r = "slice_to (filter (\<lambda>c. c < 128) text) n"
    have r: "truncate_utf8_safe text n = Some ?r"
      using enc long None by (simp add: truncate_utf8_safe_def)
    have "\<forall>c\<in>set ?r. c < 128" using slice_to_set[of "filter (\<lambda>c. c < 128) text" n] by auto
    then have e: "utf8_encode ?r = Some ?r" by (rule utf8_encode_ascii)
    have fr: "0 \<le> n \<longrightarrow> fits ?r n"
      using e slice_to_length[of n "filter (\<lambda>c. c < 128) text"] by (simp add: fits_def)
    have no: "\<not> (\<exists>p\<in>set (prefixes text). p \<noteq> [] \<and> fits p n)"
    proof
      assume "\<exists>p\<in>set (prefixes text). p \<noteq> [] \<and> fits p n"
      then obtain p where p: "prefix p text" "p \<noteq> []" "fits p n" by auto
      from fits_prefix_decodes[OF enc p(1,3)] obtain ep where ep: "utf8_encode p = Some ep"
        "int (length ep) \<le> n" "utf8_decode (take (length ep) encoded) = Some p" by blast
      have "ep \<noteq> []" using ep(1) p(2) by (rule utf8_encode_nonempty)
      then have "0 < length ep" "length ep \<le> nat n" using ep(2) by auto
      from try_decode_None[OF None this] ep(3) show False by simp
    qed
    then have "whole_cut ?r text n" unfolding whole_cut_def by (simp only: if_False)
    then show ?thesis using r fr by blast
  next
    case (Some t)
    then have r: "truncate_utf8_safe text n = Some t"
      using enc long by (simp add: truncate_utf8_safe_def)
    from try_decode_max[OF Some] obtain i where i: "0 < i" "i \<le> nat n"
      "utf8_decode (take i encoded) = Some t"
      "\<forall>j. i < j \<and> j \<le> nat n \<longrightarrow> utf8_decode (take j encoded) = None" by blast
    have e: "utf8_encode t = Some (take i encoded)" using i(3) by (rule utf8_decode_encode)
    have "prefix (take i encoded) encoded" by (rule take_is_prefix)
    with e enc have pt: "prefix t text" by (rule utf8_encode_prefix)
    have li: "length (take i encoded) = i" using i(2) long by simp
    have ft: "fits t n" using e li i(1,2) by (simp add: fits_def)
    have tn: "t \<noteq> []" using e li i(1) by auto
    have ex: "\<exists>p\<in>set (prefixes text). p \<noteq> [] \<and> fits p n" using pt tn ft by auto
    have mx: "prefix p t" if p: "prefix p text" "fits p n" for p
    proof (rule ccontr)
      assume np: "\<not> prefix p t"
      from prefix_same_cases[OF p(1) pt] np have "prefix t p" by blast
      then obtain q where q: "p = t @ q" by (auto simp: prefix_def)
      have qn: "q \<noteq> []" using np q by auto
      from fits_prefix_decodes[OF enc p] obtain ep where ep: "utf8_encode p = Some ep"
        "int (length ep) \<le> n" "utf8_decode (take (length ep) encoded) = Some p" by blast
      from ep(1) obtain eq where eq: "utf8_encode q = Some eq" "ep = take i encoded @ eq"
        unfolding q using e by (auto simp: utf8_encode_append split: option.splits)
      have "eq \<noteq> []" using eq(1) qn by (rule utf8_encode_nonempty)
      then have "i < length ep" using eq(2) li by simp
      moreover have "length ep \<le> nat n" using ep(2) by simp
      ultimately have "utf8_decode (take (length ep) encoded) = None" using i(4) by blast
      with ep(3) show False by simp
    qed
    have "whole_cut t text n" unfolding whole_cut_def using ex pt ft mx by auto
    then show ?thesis using r ft by blast
  qed
qed

lemma str_nat_digits: "\<forall>c\<in>set (str_nat n). 48 \<le> c \<and> c \<le> 57"
proof (induction n rule: str_nat.induct)
  case (1 n)
  show ?case
  proof (cases "n < 10")
    case True
    then show ?thesis by (subst str_nat.simps) simp
  next
    case False
    have "n mod 10 < 10" by simp
    then have "48 + n mod 10 \<le> 57" by linarith
    then show ?thesis using False "1.IH" by (subst str_nat.simps) auto
  qed
qed

lemma str_nat_ascii: "\<forall>c\<in>set (str_nat n). c < 128"
  using str_nat_digits[of n] by fastforce

lemma str_nat_no_sep: "95 \<notin> set (str_nat n)"
  using str_nat_digits[of n] by fastforce

lemma str_nat_val: "foldl (\<lambda>a d. a * 10 + (d - 48)) 0 (str_nat n) = n"
proof (induction n rule: str_nat.induct)
  case (1 n)
  show ?case
  proof (cases "n < 10")
    case True
    then show ?thesis by (subst str_nat.simps) simp
  next
    case False
    then show ?thesis using "1.IH" by (subst str_nat.simps) simp
  qed
qed

lemma str_nat_inj: "str_nat i = str_nat j \<Longrightarrow> i = j"
  by (metis str_nat_val)

lemma str_nat_length: "n < 10 ^ k \<Longrightarrow> 0 < k \<Longrightarrow> length (str_nat n) \<le> k"
proof (induction n arbitrary: k rule: str_nat.induct)
  case (1 n)
  show ?case
  proof (cases "n < 10")
    case True
    then show ?thesis using "1.prems" by (subst str_nat.simps) simp
  next
    case False
    obtain k' where k: "k = Suc k'" using "1.prems"(2) by (cases k) auto
    have "n div 10 < 10 ^ k'" using "1.prems"(1) k by (simp add: less_mult_imp_div_less)
    moreover have "0 < k'" using False "1.prems"(1) k by (cases k') auto
    ultimately have "length (str_nat (n div 10)) \<le> k'" using "1.IH"[OF False] by blast
    then show ?thesis using False k by (subst str_nat.simps) simp
  qed
qed

lemma str_nat_pow10: "str_nat (10 ^ k) = 49 # replicate k 48"
proof (induction k)
  case 0
  then show ?case by (subst str_nat.simps) simp
next
  case (Suc k)
  have "\<not> (10::nat) ^ Suc k < 10" by simp
  then have "str_nat (10 ^ Suc k) = str_nat (10 ^ Suc k div 10) @ [48 + 10 ^ Suc k mod 10]"
    by (subst str_nat.simps) (simp only: if_False)
  then show ?case using Suc by (simp add: replicate_append_same)
qed

lemma takeWhile_sep: "a \<notin> set xs \<Longrightarrow> takeWhile (\<lambda>x. x \<noteq> a) (xs @ a # r) = xs"
  by (induction xs) auto

lemma split_at_sep:
  assumes "xs @ a # r = ys @ a # r'" and "a \<notin> set xs" and "a \<notin> set ys"
  shows "xs = ys"
proof -
  have "takeWhile (\<lambda>x. x \<noteq> a) (xs @ a # r) = xs" using assms(2) by (rule takeWhile_sep)
  moreover have "takeWhile (\<lambda>x. x \<noteq> a) (ys @ a # r') = ys"
    using assms(3) by (rule takeWhile_sep)
  ultimately show ?thesis using assms(1) by simp
qed

lemma safe_temp_name_form:
  assumes "safe_temp_name uni index artist album m = Some name"
  shows "\<exists>rest. name = str_nat index @ 95 # rest"
  using assms
  by (auto simp: safe_temp_name_def Let_def py_def split: option.splits if_splits)

lemma safe_temp_name_distinct:
  assumes "safe_temp_name uni i artist album m = Some n1"
    and "safe_temp_name uni' j artist' album' m' = Some n2"
    and "i \<noteq> j"
  shows "n1 \<noteq> n2"
proof
  assume eq: "n1 = n2"
  from safe_temp_name_form[OF assms(1)] obtain r1 where r1: "n1 = str_nat i @ 95 # r1" ..
  from safe_temp_name_form[OF assms(2)] obtain r2 where r2: "n2 = str_nat j @ 95 # r2" ..
  have "str_nat i = str_nat j"
    using split_at_sep[of "str_nat i" 95 r1 "str_nat j" r2] eq r1 r2 str_nat_no_sep by simp
  then show False using str_nat_inj assms(3) by blast
qed

lemma safe_chars_scalar:
  assumes "\<forall>c. uni c \<longrightarrow> scalar c"
  shows "\<forall>c\<in>set (safe_chars uni s). scalar c"
proof
  fix c assume "c \<in> set (safe_chars uni s)"
  then have "c \<in> (\<lambda>c. if isalnum uni c \<or> c \<in> set (py ''-_. '') then c else 95) ` set s"
    by (simp only: safe_chars_def set_map)
  then obtain d where d: "c = (if isalnum uni d \<or> d \<in> set (py ''-_. '') then d else 95)"
    by blast
  show "scalar c"
  proof (cases "isalnum uni d \<or> d \<in> set (py ''-_. '')")
    case True
    then have "d < 128 \<or> uni d" by (auto simp: isalnum_def py_def split: if_splits)
    then have "scalar d" using assms by (auto simp: scalar_def)
    then show ?thesis using d True by simp
  next
    case False
    then show ?thesis using d by (simp add: scalar_def)
  qed
qed

lemma utf8_encode_name:
  assumes "utf8_encode a = Some ea" and "utf8_encode b = Some eb"
  shows "utf8_encode (str_nat i @ py ''_'' @ a @ py ''_'' @ b)
           = Some (str_nat i @ [95] @ ea @ [95] @ eb)"
proof -
  have s: "utf8_encode (str_nat i) = Some (str_nat i)"
    using str_nat_ascii by (rule utf8_encode_ascii)
  have u: "utf8_encode (py ''_'') = Some [95]" by (simp add: py_def utf8_char_def)
  show ?thesis using assms s u by (simp add: utf8_encode_append)
qed

lemma utf8_encode_index_part:
  "utf8_encode (str_nat i @ py ''_'') = Some (str_nat i @ [95])"
proof -
  have s: "utf8_encode (str_nat i) = Some (str_nat i)"
    using str_nat_ascii by (rule utf8_encode_ascii)
  have u: "utf8_encode (py ''_'') = Some [95]" by (simp add: py_def utf8_char_def)
  show ?thesis using s u by (simp add: utf8_encode_append)
qed

lemma safe_temp_name_fits:
  assumes "utf8_encode (safe_chars uni artist) = Some eA"
    and "utf8_encode (safe_chars uni album) = Some eB"
    and "int (length (str_nat index) + length eA + length eB + 2) \<le> m"
  shows "safe_temp_name uni index artist album m
           = Some (str_nat index @ py ''_'' @ safe_chars uni artist @ py ''_''
                     @ safe_chars uni album)"
  using assms utf8_encode_name[OF assms(1,2), of index]
  by (simp add: safe_temp_name_def Let_def)

lemma safe_temp_name_long:
  assumes "utf8_encode (safe_chars uni artist) = Some eA"
    and "utf8_encode (safe_chars uni album) = Some eB"
    and "\<not> int (length (str_nat index) + length eA + length eB + 2) \<le> m"
    and "truncate_utf8_safe (safe_chars uni artist)
           ((m - int (length (str_nat index) + 1) - 1) div 2) = Some a"
    and "truncate_utf8_safe (safe_chars uni album)
           ((m - int (length (str_nat index) + 1) - 1)
              - (m - int (length (str_nat index) + 1) - 1) div 2) = Some b"
  shows "safe_temp_name uni index artist album m
           = Some (str_nat index @ py ''_'' @ a @ py ''_'' @ b)"
  using assms utf8_encode_name[OF assms(1,2), of index] utf8_encode_index_part[of index]
  by (simp add: safe_temp_name_def Let_def)

lemma fits_name:
  assumes "utf8_encode a = Some ea" and "utf8_encode b = Some eb"
  shows "fits (str_nat i @ py ''_'' @ a @ py ''_'' @ b) m
           = (int (length (str_nat i) + length ea + length eb + 2) \<le> m)"
  using utf8_encode_name[OF assms, of i] by (simp add: fits_def)

text \<open>
  C8. The index of an entry is its position in the list of input lines, and a Python list
  has fewer than \<open>2 ^ 63\<close> elements, so every index the program computes is far below
  \<open>10 ^ 253\<close>. For every such index, artist and album, the staging name is
  \<open>{index}_{a}_{b}\<close> and fits in 255 bytes of UTF-8. When the name made of the sanitized
  artist and album fits in 255 bytes, \<open>a\<close> and \<open>b\<close> are the sanitized artist and album
  themselves. Otherwise the bytes that remain after the index and the two separators are
  split into two budgets that differ by at most one, the smaller one for the artist, and
  \<open>a\<close> and \<open>b\<close> are the whole cuts of the sanitized artist and album to these budgets:
  the longest prefix, made of whole code points, that fits, or the ASCII characters cut
  to the budget when not even the first code point fits. A name computed for another
  index is a different name. The Unicode table is assumed to hold of scalar values only,
  which excludes surrogates.
\<close>

theorem safe_temp_name_bounded:
  assumes uni: "\<forall>c. uni c \<longrightarrow> scalar c" and idx: "index < 10 ^ 253"
  shows "\<exists>name a b.
      safe_temp_name uni index artist album 255 = Some name
    \<and> name = str_nat index @ py ''_'' @ a @ py ''_'' @ b
    \<and> fits name 255
    \<and> (let sanitized_artist = safe_chars uni artist;
            sanitized_album = safe_chars uni album;
            remaining_bytes = 255 - int (length (str_nat index)) - 2;
            artist_bytes = remaining_bytes div 2;
            album_bytes = remaining_bytes - artist_bytes
        in 0 \<le> artist_bytes \<and> artist_bytes \<le> album_bytes \<and> album_bytes \<le> artist_bytes + 1
         \<and> (if fits (str_nat index @ py ''_'' @ sanitized_artist @ py ''_'' @ sanitized_album) 255
             then a = sanitized_artist \<and> b = sanitized_album
             else whole_cut a sanitized_artist artist_bytes \<and> fits a artist_bytes
                \<and> whole_cut b sanitized_album album_bytes \<and> fits b album_bytes))
    \<and> (\<forall>uni' index' artist' album' m name'.
          index' \<noteq> index \<longrightarrow> safe_temp_name uni' index' artist' album' m = Some name'
            \<longrightarrow> name' \<noteq> name)"
proof -
  let ?A = "safe_chars uni artist" and ?B = "safe_chars uni album"
  let ?rem = "255 - int (length (str_nat index)) - 2"
  obtain eA where eA: "utf8_encode ?A = Some eA"
    using utf8_encode_scalar[OF safe_chars_scalar[OF uni]] by blast
  obtain eB where eB: "utf8_encode ?B = Some eB"
    using utf8_encode_scalar[OF safe_chars_scalar[OF uni]] by blast
  have len: "length (str_nat index) \<le> 253" using idx by (rule str_nat_length) simp
  have rem: "0 \<le> ?rem" using len by simp
  then have h1: "0 \<le> ?rem div 2" and h2: "0 \<le> ?rem - ?rem div 2" by linarith+
  have h3: "?rem div 2 \<le> ?rem - ?rem div 2" and h4: "?rem - ?rem div 2 \<le> ?rem div 2 + 1"
    by linarith+
  have r': "255 - int (length (str_nat index) + 1) - 1 = ?rem" by simp
  have distinct: "\<forall>uni' index' artist' album' m name'.
          index' \<noteq> index \<longrightarrow> safe_temp_name uni' index' artist' album' m = Some name'
            \<longrightarrow> name' \<noteq> name"
    if "safe_temp_name uni index artist album 255 = Some name" for name
    using safe_temp_name_distinct[OF _ that] by blast
  show ?thesis
  proof (cases "int (length (str_nat index) + length eA + length eB + 2) \<le> 255")
    case True
    let ?name = "str_nat index @ py ''_'' @ ?A @ py ''_'' @ ?B"
    have n: "safe_temp_name uni index artist album 255 = Some ?name"
      using eA eB True by (rule safe_temp_name_fits)
    have f: "fits ?name 255" using True by (simp only: fits_name[OF eA eB])
    have c: "let sanitized_artist = ?A; sanitized_album = ?B; remaining_bytes = ?rem;
            artist_bytes = remaining_bytes div 2;
            album_bytes = remaining_bytes - artist_bytes
        in 0 \<le> artist_bytes \<and> artist_bytes \<le> album_bytes \<and> album_bytes \<le> artist_bytes + 1
         \<and> (if fits (str_nat index @ py ''_'' @ sanitized_artist @ py ''_'' @ sanitized_album) 255
             then ?A = sanitized_artist \<and> ?B = sanitized_album
             else whole_cut ?A sanitized_artist artist_bytes \<and> fits ?A artist_bytes
                \<and> whole_cut ?B sanitized_album album_bytes \<and> fits ?B album_bytes)"
      unfolding Let_def using f h1 h3 h4 by simp
    show ?thesis
      by (rule exI[of _ ?name], rule exI[of _ ?A], rule exI[of _ ?B])
         (intro conjI n refl f c distinct[OF n])
  next
    case False
    from truncate_utf8_safe_whole[OF eA, of "?rem div 2"] h1
    obtain a where a: "truncate_utf8_safe ?A (?rem div 2) = Some a"
      "whole_cut a ?A (?rem div 2)" "fits a (?rem div 2)"
      by blast
    from truncate_utf8_safe_whole[OF eB, of "?rem - ?rem div 2"] h2
    obtain b where b: "truncate_utf8_safe ?B (?rem - ?rem div 2) = Some b"
      "whole_cut b ?B (?rem - ?rem div 2)" "fits b (?rem - ?rem div 2)"
      by blast
    obtain ea where ea: "utf8_encode a = Some ea" "int (length ea) \<le> ?rem div 2"
      using a(3) by (auto simp: fits_def split: option.splits)
    obtain eb where eb: "utf8_encode b = Some eb" "int (length eb) \<le> ?rem - ?rem div 2"
      using b(3) by (auto simp: fits_def split: option.splits)
    let ?name = "str_nat index @ py ''_'' @ a @ py ''_'' @ b"
    have n: "safe_temp_name uni index artist album 255 = Some ?name"
      using eA eB False a(1)[folded r'] b(1)[folded r'] by (rule safe_temp_name_long)
    have "int (length ea) + int (length eb) \<le> ?rem" using ea(2) eb(2) by linarith
    then have "int (length (str_nat index) + length ea + length eb + 2) \<le> 255" by simp
    then have f: "fits ?name 255" by (simp only: fits_name[OF ea(1) eb(1)])
    have nf: "\<not> fits (str_nat index @ py ''_'' @ ?A @ py ''_'' @ ?B) 255"
      using False by (simp add: fits_name[OF eA eB])
    have c: "let sanitized_artist = ?A; sanitized_album = ?B; remaining_bytes = ?rem;
            artist_bytes = remaining_bytes div 2;
            album_bytes = remaining_bytes - artist_bytes
        in 0 \<le> artist_bytes \<and> artist_bytes \<le> album_bytes \<and> album_bytes \<le> artist_bytes + 1
         \<and> (if fits (str_nat index @ py ''_'' @ sanitized_artist @ py ''_'' @ sanitized_album) 255
             then a = sanitized_artist \<and> b = sanitized_album
             else whole_cut a sanitized_artist artist_bytes \<and> fits a artist_bytes
                \<and> whole_cut b sanitized_album album_bytes \<and> fits b album_bytes)"
      unfolding Let_def using nf h1 h3 h4 a(2,3) b(2,3) by simp
    show ?thesis
      by (rule exI[of _ ?name], rule exI[of _ a], rule exI[of _ b])
         (intro conjI n refl f c distinct[OF n])
  qed
qed

theorem safe_temp_name_bounded_witness:
  "\<exists>name. safe_temp_name scalar 7 (replicate 200 233) (py ''Back in Black'') 255 = Some name
     \<and> fits name 255"
proof -
  have u: "\<forall>c. scalar c \<longrightarrow> scalar c" by simp
  have i: "(7::nat) < 10 ^ 253" by simp
  from safe_temp_name_bounded[OF u i, of "replicate 200 233" "py ''Back in Black''"]
  show ?thesis by blast
qed

text \<open>
  The bound on the index cannot be dropped from the statement: \<open>10 ^ 253\<close> has 254 digits,
  and with the two separators the name has 256 bytes.
\<close>

lemma safe_temp_name_254_digits:
  "map_option utf8_len (safe_temp_name ascii_only (10 ^ 253) [] [] 255) = Some (Some 256)"
proof -
  let ?D = "str_nat (10 ^ 253)"
  have D: "?D = 49 # replicate 253 48" by (rule str_nat_pow10)
  have l: "length ?D = 254" unfolding D by simp
  have e0: "utf8_encode (safe_chars ascii_only []) = Some []" by (simp add: safe_chars_def)
  have t1: "truncate_utf8_safe (safe_chars ascii_only []) ((255 - int (length ?D + 1) - 1) div 2) = Some []"
    unfolding l by (simp add: truncate_utf8_safe_def safe_chars_def slice_to_def)
  have t2: "truncate_utf8_safe (safe_chars ascii_only [])
     ((255 - int (length ?D + 1) - 1) - (255 - int (length ?D + 1) - 1) div 2) = Some []"
    unfolding l by (simp add: truncate_utf8_safe_def safe_chars_def slice_to_def)
  have nf: "\<not> int (length ?D + length ([]::nat list) + length ([]::nat list) + 2) \<le> 255"
    unfolding l by simp
  have n: "safe_temp_name ascii_only (10 ^ 253) [] [] 255 = Some (?D @ py ''_'' @ [] @ py ''_'' @ [])"
    using e0 e0 nf t1 t2 by (rule safe_temp_name_long)
  have e: "utf8_encode (?D @ py ''_'' @ [] @ py ''_'' @ []) = Some (?D @ [95] @ [] @ [95] @ [])"
    by (rule utf8_encode_name) simp_all
  have u: "utf8_len (?D @ py ''_'' @ [] @ py ''_'' @ []) = Some 256"
    unfolding utf8_len_def e using l by simp
  show ?thesis by (simp only: n option.map u)
qed

section \<open>Moving one entry\<close>


lemma new_events_emit: "new_events w (emit e w') = new_events w w' @ [e]" if "length (trace w) \<le> length (trace w')"
  using that by (simp add: new_events_def emit_def)

lemma mkdirs_walk:
  "walk q n = Some x \<Longrightarrow> mkdirs p n = Inr n' \<Longrightarrow>
     \<exists>x'. walk q n' = Some x' \<and> is_dir x' = is_dir x \<and> st_dev x' = st_dev x"
proof (induction p n arbitrary: q x n' rule: mkdirs.induct)
  case (1 d ch)
  then show ?case by auto
next
  case (2 uu uv)
  then show ?case by simp
next
  case (3 c cs uw ux)
  then show ?case by simp
next
  case (4 c cs d ch)
  show ?case
  proof (cases q)
    case Nil
    then show ?thesis using 4 by (auto split: option.splits sum.splits)
  next
    case (Cons k ks)
    show ?thesis
    proof (cases "map_of ch c")
      case None
      then have n': "n' = Dir d (ch @ [(c, new_dirs d cs)])" using "4.prems" by simp
      from "4.prems"(1) Cons obtain m where m: "map_of ch k = Some m" "walk ks m = Some x"
        by (auto split: option.splits)
      then have "map_of (ch @ [(c, new_dirs d cs)]) k = Some m" by (simp add: map_add_Some_iff)
      then show ?thesis using n' Cons m by simp
    next
      case (Some m)
      then obtain m' where m': "mkdirs cs m = Inr m'" "n' = Dir d (AList.update c m' ch)"
        using "4.prems" by (auto split: sum.splits)
      show ?thesis
      proof (cases "k = c")
        case True
        then have "walk ks m = Some x" using "4.prems"(1) Cons Some by simp
        from "4.IH"[OF Some this m'(1)] show ?thesis using m'(2) Cons True
          by (simp add: update_conv')
      next
        case False
        then show ?thesis using "4.prems"(1) Cons m'(2) by (simp add: update_conv')
      qed
    qed
  qed
qed

lemma mkdirs_lookup:
  assumes "lookup root p \<noteq> None" and "mkdirs q root = Inr root'"
  shows "lookup root' p \<noteq> None"
proof -
  from assms(1) obtain x where x: "p \<noteq> []" "walk (components p) root = Some x"
    "\<not> (last p = 47 \<and> \<not> is_dir x)"
    by (auto simp: lookup_def split: if_splits option.splits)
  from mkdirs_walk[OF x(2) assms(2)] obtain x' where
    "walk (components p) root' = Some x'" "is_dir x' = is_dir x" by blast
  then show ?thesis using x by (simp add: lookup_def)
qed

lemma os_makedirs_exists:
  "os_path_exists w p \<Longrightarrow> os_makedirs q w = (r, w1) \<Longrightarrow> os_path_exists w1 p"
  using mkdirs_lookup[of "fs w" p "components q"]
  by (auto simp: os_path_exists_def os_makedirs_def emit_def split: sum.splits if_splits)

lemma os_makedirs_trace:
  "os_makedirs q w = (r, w1) \<Longrightarrow> \<exists>ok. trace w1 = trace w @ [Makedirs q ok]"
  by (auto simp: os_makedirs_def emit_def split: sum.splits if_splits)

lemma report_trace: "\<exists>vals. trace (report msg p opp w) = trace w @ [Print msg vals]"
  by (auto simp: report_def print_def emit_def split: option.splits)

lemma report_fs: "fs (report msg p opp w) = fs w"
  by (auto simp: report_def print_def emit_def split: option.splits)

lemma report_exists: "os_path_exists (report msg p opp w) q = os_path_exists w q"
  by (simp add: os_path_exists_def report_fs)

text \<open>
  C6. When the source does not exist, or the same-device check of \<open>move_file\<close> fails
  (or cannot be made), \<open>move_file\<close> returns \<open>False\<close> and has called \<open>os.rename\<close> for
  nothing: the source is where it was. A missing source leaves the whole file system as it
  was; otherwise the only change is the parent directory of the staging path, which
  \<open>os.makedirs\<close> may have created. So a rename happens only after both checks succeeded.
\<close>

theorem move_file_checks:
  assumes "move_file orig_path temp_path original_plex_path w = (r, w')"
    and "\<not> os_path_exists w orig_path \<or> \<not> same_device_check w orig_path temp_path"
  shows "\<not> r \<and> rename_attempts (new_events w w') = []
         \<and> (if os_path_exists w orig_path then os_path_exists w' orig_path else fs w' = fs w)"
proof (cases "os_path_exists w orig_path")
  case False
  then have "r = False" "w' = report ''Warning: path does not exist'' orig_path original_plex_path w"
    using assms(1) by (simp_all add: move_file_def)
  moreover obtain vals where "trace w' = trace w @ [Print ''Warning: path does not exist'' vals]"
    using calculation(2) report_trace by blast
  ultimately show ?thesis using False by (simp add: new_events_def report_fs)
next
  case True
  obtain e w1 where mk: "os_makedirs (dirname temp_path) w = (e, w1)" by (cases "os_makedirs (dirname temp_path) w")
  from os_makedirs_trace[OF mk] obtain ok where t1: "trace w1 = trace w @ [Makedirs (dirname temp_path) ok]" by blast
  have ex1: "os_path_exists w1 orig_path" using True mk by (rule os_makedirs_exists)
  show ?thesis
  proof (cases e)
    case (Inl x)
    then have r: "r = False" "w' = report (move_error_message x) orig_path original_plex_path w1"
      using assms(1) True mk by (simp_all add: move_file_def)
    obtain vals where "trace w' = trace w1 @ [Print (move_error_message x) vals]"
      using r(2) report_trace by blast
    then show ?thesis using r True t1 ex1 by (simp add: new_events_def report_exists)
  next
    case (Inr u)
    then have ns: "\<not> are_on_same_filesystem w1 orig_path temp_path"
      using assms(2) True mk by (simp add: same_device_check_def)
    then have r: "r = False"
      "w' = report ''Error: Source and temp directory not on same filesystem'' orig_path original_plex_path w1"
      using assms(1) True mk Inr by (simp_all add: move_file_def)
    obtain vals where "trace w' = trace w1 @ [Print ''Error: Source and temp directory not on same filesystem'' vals]"
      using r(2) report_trace by blast
    then show ?thesis using r True t1 ex1 by (simp add: new_events_def report_exists)
  qed
qed

lemma two_devices_check: "same_device_check two_devices (py ''/m/A/B'') (py ''/mnt/tmp.plexdance/0_A_B'') = False"
  by code_simp

lemma two_devices_source: "os_path_exists two_devices (py ''/m/A/B'')"
  by code_simp

theorem move_file_checks_witness:
  "fst (move_file (py ''/m/A/B'') (py ''/mnt/tmp.plexdance/0_A_B'') None two_devices) = False
   \<and> rename_attempts (new_events two_devices
        (snd (move_file (py ''/m/A/B'') (py ''/mnt/tmp.plexdance/0_A_B'') None two_devices))) = []
   \<and> os_path_exists (snd (move_file (py ''/m/A/B'') (py ''/mnt/tmp.plexdance/0_A_B'') None two_devices))
        (py ''/m/A/B'')"
proof -
  have c: "\<not> os_path_exists two_devices (py ''/m/A/B'')
           \<or> \<not> same_device_check two_devices (py ''/m/A/B'') (py ''/mnt/tmp.plexdance/0_A_B'')"
    using two_devices_check by simp
  from move_file_checks[OF surjective_pairing c] two_devices_source show ?thesis by simp
qed

section \<open>Crash recovery\<close>

lemma globals_emit [simp]:
  "library_temp_dirs (emit e w) = library_temp_dirs w"
  by (simp add: emit_def)

lemma globals_print [simp]:
  "library_temp_dirs (print m vs w) = library_temp_dirs w"
  by (simp add: print_def)

lemma globals_os_rename:
  "os_rename s d w = (r, w') \<Longrightarrow> library_temp_dirs w' = library_temp_dirs w"
  by (auto simp: os_rename_def split: sum.splits)

lemma globals_os_remove:
  "os_remove p w = (r, w') \<Longrightarrow> library_temp_dirs w' = library_temp_dirs w"
  by (auto simp: os_remove_def split: sum.splits)

lemma globals_os_rmdir:
  "os_rmdir p w = (r, w') \<Longrightarrow> library_temp_dirs w' = library_temp_dirs w"
  by (auto simp: os_rmdir_def split: sum.splits)

lemma globals_shutil_rmtree:
  "shutil_rmtree p w = (r, w') \<Longrightarrow> library_temp_dirs w' = library_temp_dirs w"
  by (auto simp: shutil_rmtree_def split: sum.splits)

lemma globals_restore_tracked:
  "library_temp_dirs (restore_tracked temp_dir temp_file w) = library_temp_dirs w"
proof -
  let ?tp = "join temp_dir temp_file"
  show ?thesis
  proof (cases "os_path_isdir w ?tp")
    case False
    then show ?thesis by (simp add: restore_tracked_def Let_def)
  next
    case True
    show ?thesis
    proof (cases "find_tracked (temp_paths w) (file_paths w) ?tp")
      case None
      then show ?thesis using True by (simp add: restore_tracked_def Let_def)
    next
      case (Some orig)
      obtain r w' where rn:
        "os_rename ?tp orig (print ''Restoring'' [basename ?tp, orig] w) = (r, w')"
        by (cases "os_rename ?tp orig (print ''Restoring'' [basename ?tp, orig] w)")
      have g: "library_temp_dirs w' = library_temp_dirs w"
        using globals_os_rename[OF rn] by simp
      show ?thesis using True Some rn g
        by (cases r) (simp_all add: restore_tracked_def Let_def)
    qed
  qed
qed

lemma globals_fold:
  assumes "\<And>x w. library_temp_dirs (f x w) = library_temp_dirs w"
  shows "library_temp_dirs (fold f xs w) = library_temp_dirs w"
  using assms by (induction xs arbitrary: w) auto

lemma globals_remove_remaining:
  "remove_remaining temp_dir names w = (r, w') \<Longrightarrow> library_temp_dirs w' = library_temp_dirs w"
proof (induction names arbitrary: w)
  case Nil
  then show ?case by simp
next
  case (Cons n names)
  show ?case
  proof (cases "os_path_isfile w (join temp_dir n)")
    case False
    then show ?thesis using Cons by (simp add: Let_def)
  next
    case True
    obtain r1 w1 where rm: "os_remove (join temp_dir n) w = (r1, w1)" by fastforce
    show ?thesis
    proof (cases r1)
      case (Inl e)
      then show ?thesis using Cons.prems True rm globals_os_remove[OF rm] by (simp add: Let_def)
    next
      case (Inr u)
      then have "remove_remaining temp_dir names w1 = (r, w')"
        using Cons.prems True rm by (simp add: Let_def)
      from Cons.IH[OF this] show ?thesis using globals_os_remove[OF rm] by simp
    qed
  qed
qed

lemma globals_remove_temp_dir:
  "library_temp_dirs (remove_temp_dir temp_dir w) = library_temp_dirs w"
proof -
  obtain r1 w1 where a: "shutil_rmtree temp_dir w = (r1, w1)" by fastforce
  let ?w2 = "print ''Warning: Failed to remove temp directory'' [temp_dir] w1"
  have g1: "library_temp_dirs w1 = library_temp_dirs w" using a by (rule globals_shutil_rmtree)
  show ?thesis
  proof (cases r1)
    case (Inr u)
    then show ?thesis using a g1 by (simp add: remove_temp_dir_def)
  next
    case (Inl e)
    show ?thesis
    proof (cases "os_listdir ?w2 temp_dir")
      case (Inl e')
      then show ?thesis using a \<open>r1 = Inl e\<close> g1 by (simp add: remove_temp_dir_def Let_def)
    next
      case (Inr remaining)
      obtain r3 w3 where b: "remove_remaining temp_dir remaining ?w2 = (r3, w3)" by fastforce
      have g3: "library_temp_dirs w3 = library_temp_dirs w"
        using globals_remove_remaining[OF b] g1 by simp
      obtain r4 w4 where c: "os_rmdir temp_dir w3 = (r4, w4)" by fastforce
      have g4: "library_temp_dirs w4 = library_temp_dirs w"
        using globals_os_rmdir[OF c] g3 by simp
      show ?thesis using a \<open>r1 = Inl e\<close> Inr b c g3 g4
        by (cases r3; cases r4) (simp_all add: remove_temp_dir_def Let_def)
    qed
  qed
qed

lemma globals_cleanup_dir:
  "library_temp_dirs (cleanup_dir entry w) = library_temp_dirs w"
  by (auto simp: cleanup_dir_def Let_def globals_remove_temp_dir globals_fold
        globals_restore_tracked split: sum.splits)

lemma cleanup_and_restore_clears: "library_temp_dirs (cleanup_and_restore w) = []"
  by (simp add: cleanup_and_restore_def Let_def globals_fold globals_cleanup_dir)

text \<open>
  C7. Crash recovery is idempotent: \<open>cleanup_and_restore\<close> leaves \<open>library_temp_dirs\<close>
  empty, so a second call right after the first returns at its first test: it yields the
  state of the first call and adds no effect to the record, whatever the state was.
\<close>

theorem cleanup_and_restore_idempotent:
  "library_temp_dirs (cleanup_and_restore w) = []
   \<and> cleanup_and_restore (cleanup_and_restore w) = cleanup_and_restore w
   \<and> new_events (cleanup_and_restore w) (cleanup_and_restore (cleanup_and_restore w)) = []"
proof -
  have c: "library_temp_dirs (cleanup_and_restore w) = []" by (rule cleanup_and_restore_clears)
  then have i: "cleanup_and_restore (cleanup_and_restore w) = cleanup_and_restore w"
    by (simp add: cleanup_and_restore_def[of "cleanup_and_restore w"])
  show ?thesis using c i by (simp add: new_events_def)
qed

theorem cleanup_and_restore_idempotent_witness:
  "cleanup_and_restore (cleanup_and_restore staged_world) = cleanup_and_restore staged_world
   \<and> os_path_exists (cleanup_and_restore staged_world) (py ''/m/A/B/track.flac'')"
proof -
  have "os_path_exists (cleanup_and_restore staged_world) (py ''/m/A/B/track.flac'')"
    by code_simp
  then show ?thesis using cleanup_and_restore_idempotent[of staged_world] by simp
qed

text \<open>
  C2, where the code departs from it. In \<open>stuck_world\<close> the rename of the staged album
  back to \<open>/m/A/B\<close> fails, and \<open>cleanup_and_restore\<close> then removes the staging directory
  with \<open>shutil.rmtree\<close> all the same: the album and its track are on disk before the call
  and nowhere after it.
\<close>

theorem cleanup_deletes_unrestored:
  "os_path_exists stuck_world (py ''/m/tmp.plexdance/0_A_B/track.flac'')
   \<and> Rename (py ''/m/tmp.plexdance/0_A_B'') (py ''/m/A/B'') False
        \<in> set (trace (cleanup_and_restore stuck_world))
   \<and> Rmtree (py ''/m/tmp.plexdance'') True \<in> set (trace (cleanup_and_restore stuck_world))
   \<and> \<not> os_path_exists (cleanup_and_restore stuck_world) (py ''/m/tmp.plexdance/0_A_B/track.flac'')
   \<and> \<not> os_path_exists (cleanup_and_restore stuck_world) (py ''/m/A/B'')
   \<and> fs (cleanup_and_restore stuck_world) = Dir 1 [(py ''m'', Dir 1 [])]"
  by code_simp

section \<open>Polling the Plex server\<close>

lemma path_has_visible_albums_raises:
  "\<forall>album_id\<in>set album_ids. \<exists>e. fetch album_id = FetchRaises e \<Longrightarrow>
     path_has_visible_albums fetch album_ids = False"
  by (induction album_ids) auto

lemma poll_loop_retry:
  assumes "check_albums_removed_from_plex (plexf k) moved w = ((False, n), w1)"
    and "elapsed_time < max_wait_time"
  shows "poll_loop plexf moved max_wait_time elapsed_time k all_removed w
         = poll_loop plexf moved max_wait_time (elapsed_time + 5) (Suc k) (Some False)
             (emit (Sleep 5) (print ''albums still visible'' [] (emit (Poll False n) w1)))"
  using assms by (subst poll_loop.simps) (simp add: Let_def)

text \<open>
  The two exception handlers of \<open>check_albums_removed_from_plex\<close>. When the connection to
  the Plex server fails at the start of a poll, or the legacy listing raises, the outer
  handler prints a warning and reports every moved path as still visible; the polling loop
  then sleeps for the interval and polls again, and nothing is raised. The inner handler,
  around the lookup of one identifier, does the opposite: whatever the lookup raises, the
  identifier counts as absent, so a path whose lookups all raise is not among the visible
  ones.
\<close>

lemma connection_error_is_retried:
  "(\<not> connects (plexf k) \<or> (\<exists>e. still_visible_paths (plexf k) moved = Inl e) \<longrightarrow>
      check_albums_removed_from_plex (plexf k) moved w
        = ((False, length moved), print ''Warning: Could not check Plex status'' [] w)
      \<and> (elapsed_time < max_wait_time \<longrightarrow>
           poll_loop plexf moved max_wait_time elapsed_time k all_removed w
           = poll_loop plexf moved max_wait_time (elapsed_time + 5) (Suc k) (Some False)
               (emit (Sleep 5) (print ''albums still visible'' []
                  (emit (Poll False (length moved))
                     (print ''Warning: Could not check Plex status'' [] w))))))
   \<and> (album_ids \<noteq> [] \<and> (\<forall>album_id\<in>set album_ids. \<exists>e. fetchItem (plexf k) album_id = FetchRaises e) \<longrightarrow>
        still_visible_paths (plexf k) [(plex_path, album_ids)] = Inr [])"
proof -
  have a: "check_albums_removed_from_plex (plexf k) moved w
        = ((False, length moved), print ''Warning: Could not check Plex status'' [] w)"
    if "\<not> connects (plexf k) \<or> (\<exists>e. still_visible_paths (plexf k) moved = Inl e)"
    using that by (auto simp: check_albums_removed_from_plex_def)
  have b: "poll_loop plexf moved max_wait_time elapsed_time k all_removed w
           = poll_loop plexf moved max_wait_time (elapsed_time + 5) (Suc k) (Some False)
               (emit (Sleep 5) (print ''albums still visible'' []
                  (emit (Poll False (length moved))
                     (print ''Warning: Could not check Plex status'' [] w))))"
    if "\<not> connects (plexf k) \<or> (\<exists>e. still_visible_paths (plexf k) moved = Inl e)"
      and "elapsed_time < max_wait_time"
    using poll_loop_retry[where plexf=plexf and k=k, OF a[OF that(1)] that(2)] .
  have c: "still_visible_paths (plexf k) [(plex_path, album_ids)] = Inr []"
    if "album_ids \<noteq> []" "\<forall>album_id\<in>set album_ids. \<exists>e. fetchItem (plexf k) album_id = FetchRaises e"
    using that path_has_visible_albums_raises[of album_ids "fetchItem (plexf k)"] by simp
  show ?thesis using a b c by blast
qed

lemma connection_error_is_retried_example:
  "check_albums_removed_from_plex down_server [(py ''/media/Music/A/B'', [py ''101''])] staged_world
     = ((False, 1), print ''Warning: Could not check Plex status'' [] staged_world)
   \<and> poll_loop (\<lambda>k. down_server) [(py ''/media/Music/A/B'', [py ''101''])] 10 0 0 None staged_world
     = poll_loop (\<lambda>k. down_server) [(py ''/media/Music/A/B'', [py ''101''])] 10 5 1 (Some False)
         (emit (Sleep 5) (print ''albums still visible'' []
            (emit (Poll False 1) (print ''Warning: Could not check Plex status'' [] staged_world))))"
proof -
  have d: "\<not> connects down_server" by (simp add: down_server_def)
  show ?thesis
    using connection_error_is_retried[of "\<lambda>k. down_server" 0 "[(py ''/media/Music/A/B'', [py ''101''])]"
        staged_world 0 10 None] d
    by simp
qed

text \<open>
  C9, where the code departs from it. The album \<open>/media/Music/A/B\<close> has the identifiers
  101 and 102, and the Plex server accepts the connection of the poll and then stops
  answering, so that both lookups fail with a connection error. The inner handler
  \<open>except Exception: continue\<close> takes each failure for "album not found": the poll
  reports that nothing is visible any more, where C9 has it report the entry as still
  visible. The polling loop therefore ends at this first poll with "Plex has noticed all
  changes", and the query is not tried again.
\<close>

theorem lookup_failure_counts_as_removed:
  "check_albums_removed_from_plex flaky_server
       [(py ''/media/Music/A/B'', [py ''101'', py ''102''])] staged_world
     = ((True, 0), staged_world)
   \<and> phase2 False 10 (\<lambda>k. flaky_server)
       [(py ''/media/Music/A/B'', [py ''101'', py ''102''])] staged_world
     = (Inr (), print ''Plex has noticed all changes'' [] (emit (Poll True 0) staged_world))"
proof -
  have c: "check_albums_removed_from_plex flaky_server
       [(py ''/media/Music/A/B'', [py ''101'', py ''102''])] staged_world
     = ((True, 0), staged_world)"
    by (simp add: check_albums_removed_from_plex_def flaky_server_def)
  have l: "poll_loop (\<lambda>k. flaky_server)
       [(py ''/media/Music/A/B'', [py ''101'', py ''102''])] 10 0 0 None staged_world
     = ((0, Some True), print ''Plex has noticed all changes'' [] (emit (Poll True 0) staged_world))"
    by (subst poll_loop.simps) (simp add: c)
  show ?thesis using c l by (simp add: phase2_def)
qed

lemma polls_append: "polls (xs @ ys) = polls xs @ polls ys"
  by (induction xs rule: polls.induct) auto

lemma check_albums_removed_effects:
  assumes "check_albums_removed_from_plex p moved w = (r, w1)"
  shows "fs w1 = fs w \<and> (\<exists>es. trace w1 = trace w @ es \<and> polls es = [])"
  using assms
  by (auto simp: check_albums_removed_from_plex_def print_def emit_def split: if_splits sum.splits)

lemma div5_step: "(x::int) - 5 + 4 = (x + 4) - 5 \<and> ((x + 4) - 5) div 5 = (x + 4) div 5 - 1"
  by simp

lemma poll_budget:
  assumes "(el::int) < mw"
  shows "Suc (nat ((mw - (el + 5) + 4) div 5)) \<le> nat ((mw - el + 4) div 5)"
proof -
  let ?x = "mw - el"
  have x: "1 \<le> ?x" using assms by simp
  have e: "mw - (el + 5) + 4 = (?x + 4) - 5" by simp
  have d: "((?x + 4) - 5) div 5 = (?x + 4) div 5 - 1" by simp
  have p: "1 \<le> (?x + 4) div 5" using x by simp
  show ?thesis unfolding e d using p by simp
qed

lemma poll_loop_effects:
  "poll_loop plexf moved mw el k ar w = (r, w') \<Longrightarrow>
     fs w' = fs w \<and>
     (\<exists>es. trace w' = trace w @ es \<and> length (polls es) \<le> nat ((mw - el + 4) div 5))"
proof (induction plexf moved mw el k ar w arbitrary: r w' rule: poll_loop.induct)
  case (1 plexf moved mw el k ar w)
  show ?case
  proof (cases "el < mw")
    case False
    then have "w' = w" using "1.prems" by (subst (asm) poll_loop.simps) simp
    then show ?thesis by simp
  next
    case True
    obtain removed n w1 where c: "check_albums_removed_from_plex (plexf k) moved w = ((removed, n), w1)"
      by (cases "check_albums_removed_from_plex (plexf k) moved w") auto
    from check_albums_removed_effects[OF c] obtain es1 where
      e1: "fs w1 = fs w" "trace w1 = trace w @ es1" "polls es1 = []" by blast
    have b: "1 \<le> nat ((mw - el + 4) div 5)" using poll_budget[OF True] by linarith
    show ?thesis
    proof (cases removed)
      case True
      then have "w' = print ''Plex has noticed all changes'' [] (emit (Poll removed n) w1)"
        using "1.prems" \<open>el < mw\<close> c by (subst (asm) poll_loop.simps) (simp add: Let_def)
      then have "fs w' = fs w"
        and "trace w' = trace w @ (es1 @ [Poll removed n, Print ''Plex has noticed all changes'' []])"
        using e1 by (simp_all add: print_def emit_def)
      moreover have "length (polls (es1 @ [Poll removed n, Print ''Plex has noticed all changes'' []])) = 1"
        using e1(3) by (simp add: polls_append)
      ultimately show ?thesis using b by (metis)
    next
      case False
      let ?w2 = "emit (Sleep 5) (print ''albums still visible'' [] (emit (Poll removed n) w1))"
      have rec: "poll_loop plexf moved mw (el + 5) (Suc k) (Some False) ?w2 = (r, w')"
        using "1.prems" \<open>el < mw\<close> c False by (subst (asm) poll_loop.simps) (simp add: Let_def)
      from "1.IH"[OF \<open>el < mw\<close> c[symmetric] refl refl False rec]
      obtain es where es: "fs w' = fs ?w2" "trace w' = trace ?w2 @ es"
        "length (polls es) \<le> nat ((mw - (el + 5) + 4) div 5)" by blast
      have t2: "trace ?w2 = trace w @ (es1 @ [Poll removed n, Print ''albums still visible'' [], Sleep 5])"
        and f2: "fs ?w2 = fs w"
        using e1 by (simp_all add: print_def emit_def)
      have "trace w' = trace w @ ((es1 @ [Poll removed n, Print ''albums still visible'' [], Sleep 5]) @ es)"
        using es(2) t2 by simp
      moreover have "length (polls ((es1 @ [Poll removed n, Print ''albums still visible'' [], Sleep 5]) @ es))
          = Suc (length (polls es))"
        using e1(3) by (simp add: polls_append)
      moreover have "Suc (length (polls es)) \<le> nat ((mw - el + 4) div 5)"
        using es(3) poll_budget[OF \<open>el < mw\<close>] by linarith
      ultimately show ?thesis using es(1) f2 by metis
    qed
  qed
qed

lemma poll_visible_step:
  assumes "fst (fst (check_albums_removed_from_plex (plexf k) moved w)) = False"
    and "elapsed_time < max_wait_time"
  shows "\<exists>w2 es. poll_loop plexf moved max_wait_time elapsed_time k all_removed w
             = poll_loop plexf moved max_wait_time (elapsed_time + 5) (Suc k) (Some False) w2
           \<and> trace w2 = trace w @ es \<and> map fst (polls es) = [False] \<and> fs w2 = fs w"
proof -
  obtain removed n w1 where c: "check_albums_removed_from_plex (plexf k) moved w = ((removed, n), w1)"
    by (cases "check_albums_removed_from_plex (plexf k) moved w") auto
  then have r: "removed = False" using assms(1) by simp
  from check_albums_removed_effects[OF c] obtain es1 where
    e1: "fs w1 = fs w" "trace w1 = trace w @ es1" "polls es1 = []" by blast
  let ?w2 = "emit (Sleep 5) (print ''albums still visible'' [] (emit (Poll False n) w1))"
  have "poll_loop plexf moved max_wait_time elapsed_time k all_removed w
      = poll_loop plexf moved max_wait_time (elapsed_time + 5) (Suc k) (Some False) ?w2"
    using poll_loop_retry[where plexf=plexf and k=k, OF c[unfolded r] assms(2)] .
  moreover have "trace ?w2 = trace w @ (es1 @ [Poll False n, Print ''albums still visible'' [], Sleep 5])"
    using e1 by (simp add: print_def emit_def)
  moreover have "map fst (polls (es1 @ [Poll False n, Print ''albums still visible'' [], Sleep 5])) = [False]"
    using e1(3) by (simp add: polls_append)
  moreover have "fs ?w2 = fs w" using e1 by (simp add: print_def emit_def)
  ultimately show ?thesis
    by (intro exI[of _ ?w2] exI[of _ "es1 @ [Poll False n, Print ''albums still visible'' [], Sleep 5]"] conjI)
qed

text \<open>
  C4. With \<open>--max-wait 10\<close>, the poll interval of 5 seconds, and a Plex server that reports
  the moved entries as still visible at every poll, phase 2 makes exactly two polls, both
  answered "still visible", prints the timeout message as its last effect, raises nothing
  and leaves the file system alone; \<open>main\<close> then goes on to phase 3, the restore. For any
  \<open>max_wait_time\<close> and any server, the loop polls at most once for each interval of 5
  seconds that \<open>max_wait_time\<close> has begun.
\<close>

theorem poll_timeout_two_polls:
  assumes vis: "\<forall>k w. fst (fst (check_albums_removed_from_plex (plex_server_at en k) moved w)) = False"
    and mw: "max_wait a = 10" and sk: "\<not> skip_validation a"
  shows "\<exists>w1 es. phase2 (skip_validation a) (max_wait a) (plex_server_at en) moved w = (Inr (), w1)
       \<and> trace w1 = trace w @ es \<and> map fst (polls es) = [False, False]
       \<and> last es = Print ''Timeout reached, proceeding with restore...'' []
       \<and> fs w1 = fs w
       \<and> wait_and_restore a en moved w = phase3 w1
       \<and> (\<forall>plexf mv max_wait_time r w'.
             poll_loop plexf mv max_wait_time 0 0 None w = (r, w') \<longrightarrow>
             length (polls (new_events w w')) \<le> nat ((max_wait_time + 4) div 5))"
proof -
  let ?P = "plex_server_at en"
  from poll_visible_step[of ?P 0 moved w 0 10 None] vis
  obtain wa ea where a: "poll_loop ?P moved 10 0 0 None w = poll_loop ?P moved 10 (0 + 5) (Suc 0) (Some False) wa"
    "trace wa = trace w @ ea" "map fst (polls ea) = [False]" "fs wa = fs w"
    by auto
  from poll_visible_step[of ?P "Suc 0" moved wa "0 + 5" 10 "Some False"] vis
  obtain wb eb where b: "poll_loop ?P moved 10 (0 + 5) (Suc 0) (Some False) wa
        = poll_loop ?P moved 10 (0 + 5 + 5) (Suc (Suc 0)) (Some False) wb"
    "trace wb = trace wa @ eb" "map fst (polls eb) = [False]" "fs wb = fs wa"
    by auto
  have c: "poll_loop ?P moved 10 (0 + 5 + 5) (Suc (Suc 0)) (Some False) wb = ((10, Some False), wb)"
    by (subst poll_loop.simps) simp
  have loop: "poll_loop ?P moved 10 0 0 None w = ((10, Some False), wb)"
    using a(1) b(1) c by simp
  let ?w1 = "print ''Timeout reached, proceeding with restore...'' [] wb"
  have p2: "phase2 (skip_validation a) (max_wait a) ?P moved w = (Inr (), ?w1)"
    using loop mw sk by (simp add: phase2_def)
  let ?es = "ea @ eb @ [Print ''Timeout reached, proceeding with restore...'' []]"
  have t: "trace ?w1 = trace w @ ?es" using a(2) b(2) by (simp add: print_def emit_def)
  have ps: "map fst (polls ?es) = [False, False]" using a(3) b(3) by (simp add: polls_append)
  have l: "last ?es = Print ''Timeout reached, proceeding with restore...'' []" by simp
  have f: "fs ?w1 = fs w" using a(4) b(4) by (simp add: print_def emit_def)
  have wr: "wait_and_restore a en moved w = phase3 ?w1" using p2 by (simp add: wait_and_restore_def)
  have bound: "\<forall>plexf mv max_wait_time r w'.
             poll_loop plexf mv max_wait_time 0 0 None w = (r, w') \<longrightarrow>
             length (polls (new_events w w')) \<le> nat ((max_wait_time + 4) div 5)"
  proof (intro allI impI)
    fix plexf mv max_wait_time r w'
    assume "poll_loop plexf mv max_wait_time 0 0 None w = (r, w')"
    from poll_loop_effects[OF this] obtain es where
      "trace w' = trace w @ es" "length (polls es) \<le> nat ((max_wait_time - 0 + 4) div 5)"
      by blast
    then show "length (polls (new_events w w')) \<le> nat ((max_wait_time + 4) div 5)"
      by (simp add: new_events_def)
  qed
  show ?thesis
    by (rule exI[of _ ?w1], rule exI[of _ ?es]) (intro conjI p2 t ps l f wr bound)
qed

theorem poll_timeout_two_polls_witness:
  "\<exists>w1 es. phase2 False 10 (\<lambda>k. seen_server) [(py ''/m/A/B'', [py ''7''])] staged_world = (Inr (), w1)
       \<and> trace w1 = trace staged_world @ es \<and> map fst (polls es) = [False, False]
       \<and> last es = Print ''Timeout reached, proceeding with restore...'' []
       \<and> wait_and_restore polling_args polling_env [(py ''/m/A/B'', [py ''7''])] staged_world = phase3 w1"
proof -
  have v: "\<forall>k w. fst (fst (check_albums_removed_from_plex (plex_server_at polling_env k)
             [(py ''/m/A/B'', [py ''7''])] w)) = False"
    by (simp add: check_albums_removed_from_plex_def polling_env_def seen_server_def)
  have m: "max_wait polling_args = 10" and s: "\<not> skip_validation polling_args"
    by (simp_all add: polling_args_def)
  from poll_timeout_two_polls[OF v m s, of staged_world]
  show ?thesis by (auto simp: polling_args_def polling_env_def)
qed

section \<open>How the record of effects grows\<close>

lemma quiet_refl [simp]: "quiet_step w w"
  by (simp add: quiet_step_def)




lemma later_refl [simp]: "later w w"
  by (simp add: later_def)


lemma later_emit [simp]: "later w (emit e w)"
  by (simp add: later_def emit_def)

lemma later_new_events: "later w w' \<Longrightarrow> trace w' = trace w @ new_events w w'"
  by (auto simp: later_def new_events_def prefix_def)













lemma later_os_rename: "os_rename s d w = (r, w') \<Longrightarrow> later w w'"
  by (auto simp: os_rename_def later_def emit_def split: sum.splits)



lemma later_snd_os_rename [simp]: "later w (snd (os_rename s d w))"
  using later_os_rename[of s d w] by (cases "os_rename s d w") simp











section \<open>A termination signal during the moves\<close>

lemma interrupted_run_state:
  "run mapped_args polling_env plex_paths3 [] (Some 1) music_library =
   (1, \<lparr>fs = Dir 1 [((py ''Users''), Dir 1 [((py ''u''), Dir 1 [((py ''Music''), Dir 1 [((py ''A''), Dir 1 [((py ''C''), Dir 1 [((py ''t.flac''), File 1 [])]), ((py ''D''), Dir 1 [((py ''t.flac''), File 1 [])])])])])])], trace = [Makedirs (py ''/Users/u/Music/tmp.plexdance'') True, WriteFile (py ''/Users/u/Music/tmp.plexdance/lock'') [(py ''PID: 4242''), (py ''Started: 2024-01-01 00:00:00'')] True, WriteFile (py ''/Users/u/Music/tmp.plexdance/restore.log'') [(py ''#!/bin/bash''), (py ''# Restore script for plex-dance operation''), (py ''# Generated: 2024-01-01 00:00:00''), [], (py ''mv /Users/u/Music/tmp.plexdance/0_A_B /Users/u/Music/A/B''), (py ''mv /Users/u/Music/tmp.plexdance/1_A_C /Users/u/Music/A/C''), (py ''mv /Users/u/Music/tmp.plexdance/2_A_D /Users/u/Music/A/D'')] True, Makedirs (py ''/Users/u/Music/tmp.plexdance'') True, Rename (py ''/Users/u/Music/A/B'') (py ''/Users/u/Music/tmp.plexdance/0_A_B'') True, Print ''Received signal, cleaning up...'' [], Print ''Cleaning up and restoring files...'' [], Print ''Restoring albums from'' [(py ''/Users/u/Music/tmp.plexdance'')], Print ''Restoring'' [(py ''0_A_B''), (py ''/media/Music/A/B'')], Rename (py ''/Users/u/Music/tmp.plexdance/0_A_B'') (py ''/media/Music/A/B'') False, Print ''Failed to restore'' [(py ''/Users/u/Music/tmp.plexdance/0_A_B'')], Rmtree (py ''/Users/u/Music/tmp.plexdance'') True, Print ''Cleaned up'' [(py ''/Users/u/Music/tmp.plexdance'')]], library_temp_dirs = [], temp_paths = [(py ''/Users/u/Music/tmp.plexdance/0_A_B''), (py ''/Users/u/Music/tmp.plexdance/1_A_C''), (py ''/Users/u/Music/tmp.plexdance/2_A_D'')], file_paths = [(py ''/media/Music/A/B''), (py ''/media/Music/A/C''), (py ''/media/Music/A/D'')], atexit_registered = False\<rparr>)"
  by code_simp

lemma interrupted_run_plain_state:
  "run plain_args polling_env local_paths3 [] (Some 1) music_library =
   (1, \<lparr>fs = Dir 1 [((py ''Users''), Dir 1 [((py ''u''), Dir 1 [((py ''Music''), Dir 1 [((py ''A''), Dir 1 [((py ''C''), Dir 1 [((py ''t.flac''), File 1 [])]), ((py ''D''), Dir 1 [((py ''t.flac''), File 1 [])]), ((py ''B''), Dir 1 [((py ''t.flac''), File 1 [])])])])])])], trace = [Makedirs (py ''/Users/u/Music/tmp.plexdance'') True, WriteFile (py ''/Users/u/Music/tmp.plexdance/lock'') [(py ''PID: 4242''), (py ''Started: 2024-01-01 00:00:00'')] True, WriteFile (py ''/Users/u/Music/tmp.plexdance/restore.log'') [(py ''#!/bin/bash''), (py ''# Restore script for plex-dance operation''), (py ''# Generated: 2024-01-01 00:00:00''), [], (py ''mv /Users/u/Music/tmp.plexdance/0_A_B /Users/u/Music/A/B''), (py ''mv /Users/u/Music/tmp.plexdance/1_A_C /Users/u/Music/A/C''), (py ''mv /Users/u/Music/tmp.plexdance/2_A_D /Users/u/Music/A/D'')] True, Makedirs (py ''/Users/u/Music/tmp.plexdance'') True, Rename (py ''/Users/u/Music/A/B'') (py ''/Users/u/Music/tmp.plexdance/0_A_B'') True, Print ''Received signal, cleaning up...'' [], Print ''Cleaning up and restoring files...'' [], Print ''Restoring albums from'' [(py ''/Users/u/Music/tmp.plexdance'')], Print ''Restoring'' [(py ''0_A_B''), (py ''/Users/u/Music/A/B'')], Rename (py ''/Users/u/Music/tmp.plexdance/0_A_B'') (py ''/Users/u/Music/A/B'') True, Rmtree (py ''/Users/u/Music/tmp.plexdance'') True, Print ''Cleaned up'' [(py ''/Users/u/Music/tmp.plexdance'')]], library_temp_dirs = [], temp_paths = [(py ''/Users/u/Music/tmp.plexdance/0_A_B''), (py ''/Users/u/Music/tmp.plexdance/1_A_C''), (py ''/Users/u/Music/tmp.plexdance/2_A_D'')], file_paths = [(py ''/Users/u/Music/A/B''), (py ''/Users/u/Music/A/C''), (py ''/Users/u/Music/A/D'')], atexit_registered = False\<rparr>)"
  by code_simp

text \<open>
  C1, where the code departs from it. The three albums are moved with the path mapping
  \<open>/Users/u/Music:/media/Music\<close>, and the termination signal arrives when the first is
  staged and the second not yet begun. \<open>file_paths\<close> still holds the Plex paths then (it
  gets the local paths only after the move loop), so the recovery renames the staged album
  to \<open>/media/Music/A/B\<close>, not to the local path \<open>/Users/u/Music/A/B\<close> it was moved from.
  That rename fails, the staging directory is removed, and the album is lost; the two
  albums never moved are untouched and the exit code is 1.
\<close>

theorem interrupted_run_loses_entry:
  "fst (run mapped_args polling_env plex_paths3 [] (Some 1) music_library) = 1
   \<and> rename_attempts (trace (snd (run mapped_args polling_env plex_paths3 [] (Some 1) music_library)))
       = [(py ''/Users/u/Music/A/B'', py ''/Users/u/Music/tmp.plexdance/0_A_B''),
          (py ''/Users/u/Music/tmp.plexdance/0_A_B'', py ''/media/Music/A/B'')]
   \<and> fs (snd (run mapped_args polling_env plex_paths3 [] (Some 1) music_library))
       = Dir 1 [(py ''Users'', Dir 1 [(py ''u'', Dir 1 [(py ''Music'', Dir 1
          [(py ''A'', Dir 1 [(py ''C'', Dir 1 [(py ''t.flac'', File 1 [])]),
                             (py ''D'', Dir 1 [(py ''t.flac'', File 1 [])])])])])])]"
  unfolding interrupted_run_state by (simp add: py_def)


text \<open>
  The same run without a path mapping, where Plex paths and local paths are the same:
  the staged album is renamed back to where it was.
\<close>

lemma interrupted_run_without_mapping:
  "fst (run plain_args polling_env local_paths3 [] (Some 1) music_library) = 1
   \<and> rename_attempts (trace (snd (run plain_args polling_env local_paths3 [] (Some 1) music_library)))
       = [(py ''/Users/u/Music/A/B'', py ''/Users/u/Music/tmp.plexdance/0_A_B''),
          (py ''/Users/u/Music/tmp.plexdance/0_A_B'', py ''/Users/u/Music/A/B'')]
   \<and> fs (snd (run plain_args polling_env local_paths3 [] (Some 1) music_library))
       = Dir 1 [(py ''Users'', Dir 1 [(py ''u'', Dir 1 [(py ''Music'', Dir 1
          [(py ''A'', Dir 1 [(py ''C'', Dir 1 [(py ''t.flac'', File 1 [])]),
                             (py ''D'', Dir 1 [(py ''t.flac'', File 1 [])]),
                             (py ''B'', Dir 1 [(py ''t.flac'', File 1 [])])])])])])]"
  unfolding interrupted_run_plain_state by (simp add: py_def)

section \<open>The recovery log is written before the moves\<close>




















section \<open>A staging directory left by an earlier run\<close>










lemma exists_print [simp]: "os_path_exists (print m vs w) p = os_path_exists w p"
  by (simp add: os_path_exists_def print_def emit_def)
















end
